theory Spec2Isabelle
  imports Complex_Main
begin

section \<open>Python values\<close>

text \<open>
  A Python \<open>str\<close> is a sequence of Unicode code points, so it is a list of naturals
  here: the null character is the code point 0 and the replacement character U+FFFD
  is 65533. Column names and filter keys are kept as HOL strings. An embedding is a
  \<open>List[float]\<close>; the source never computes with its entries, so they are idealised
  as reals. Open key-value payloads (\<open>meta_data\<close>, \<open>usage\<close>) are JSON values.
\<close>

type_synonym pystr = "nat list"

type_synonym bytes = "nat list"

type_synonym vector = "real list"

datatype json =
    JNull
  | JBool bool
  | JNum int
  | JStr pystr
  | JArr "json list"
  | JObj "(pystr \<times> json) list"

text \<open>
  The exceptions that reach the code: Python's own, and the classes of error the
  database driver reports.
\<close>

datatype error =
    NameError
  | AttributeError
  | UnicodeEncodeError
  | EmbeddingUnavailable
  | OperationalError
  | UndefinedTable
  | DuplicateTable
  | UniqueViolation
  | DataError
  | FeatureNotSupported
  | ProgrammingError

subsection \<open>Content fingerprinting\<close>

text \<open>
  The call \<open>content.replace\<close> of lines 143, 180 and 219: every null character
  becomes the replacement character U+FFFD.
\<close>

definition replace_null :: "pystr \<Rightarrow> pystr" where
  "replace_null s = map (\<lambda>c. if c = 0 then 65533 else c) s"

text \<open>
  \<open>str.encode()\<close>: UTF-8. A lone surrogate (U+D800 to U+DFFF) cannot be encoded and
  raises; a number above U+10FFFF is not a code point of any Python string.
\<close>

definition utf8 :: "nat \<Rightarrow> bytes option" where
  "utf8 c =
     (if c < 128 then Some [c]
      else if c < 2048 then Some [192 + c div 64, 128 + c mod 64]
      else if 55296 \<le> c \<and> c < 57344 then None
      else if c < 65536 then
        Some [224 + c div 4096, 128 + c div 64 mod 64, 128 + c mod 64]
      else if c < 1114112 then
        Some [240 + c div 262144, 128 + c div 4096 mod 64, 128 + c div 64 mod 64,
              128 + c mod 64]
      else None)"

fun encode :: "pystr \<Rightarrow> error + bytes" where
  "encode [] = Inr []"
| "encode (c # s) =
     (case utf8 c of
        None \<Rightarrow> Inl UnicodeEncodeError
      | Some b \<Rightarrow> (case encode s of Inl e \<Rightarrow> Inl e | Inr bs \<Rightarrow> Inr (b @ bs)))"

text \<open>
  \<open>md5(cleaned_content.encode()).hexdigest()\<close>. The digest function of \<open>hashlib\<close> is
  a parameter \<open>md5\<close> of the model, from bytes to the hexadecimal string.
\<close>

definition content_digest :: "(bytes \<Rightarrow> pystr) \<Rightarrow> pystr \<Rightarrow> error + pystr" where
  "content_digest md5 cleaned_content =
     (case encode cleaned_content of Inl e \<Rightarrow> Inl e | Inr b \<Rightarrow> Inr (md5 b))"

section \<open>Documents and the embedding provider\<close>

text \<open>
  Modelled from the spec: the \<open>Document\<close> class and the embedder live in
  \<open>vagents.vagentic.document\<close> and \<open>vagents.vagentic.emb\<close>, outside the source
  file. The spec gives the document the fields id, name, content, metadata, usage
  and embedding, and the provider the contract \<open>embed(text) -> vector | unavailable\<close>.
  Every field may be \<open>None\<close> in Python; the reference to the embedder a document
  carries is left out, since nothing in the source file reads it.
\<close>

record document =
  doc_id :: "pystr option"
  doc_name :: "pystr option"
  doc_meta_data :: "json option"
  doc_content :: "pystr option"
  doc_embedding :: "vector option"
  doc_usage :: "json option"

type_synonym embedder = "pystr \<Rightarrow> vector option"

text \<open>
  Modelled from the spec: \<open>Document.embed(embedder)\<close> populates the embedding in
  place before a write; a provider that is unavailable (or a document with nothing
  to embed) makes the write fail.
\<close>

definition embed :: "embedder \<Rightarrow> document \<Rightarrow> error + document" where
  "embed embedder d =
     (case doc_content d of
        None \<Rightarrow> Inl EmbeddingUnavailable
      | Some c \<Rightarrow>
          (case embedder c of
             None \<Rightarrow> Inl EmbeddingUnavailable
           | Some v \<Rightarrow> Inr (d\<lparr>doc_embedding := Some v\<rparr>)))"

section \<open>Collection configuration\<close>

text \<open>
  Modelled from the spec: the enumeration \<open>Distance\<close> of
  \<open>vagents.vagentic.vectordb.base\<close> has the three metrics L2, cosine and
  max-inner-product.
\<close>

datatype distance = l2 | cosine | max_inner_product

text \<open>The classes \<open>Ivfflat\<close> and \<open>HNSW\<close> (lines 35 to 52), with their defaults.\<close>

record ivfflat =
  iv_name :: "string option"
  iv_lists :: int
  iv_probes :: int
  iv_dynamic_lists :: bool
  iv_configuration :: "(string \<times> string) list"

record hnsw =
  hn_name :: "string option"
  hn_m :: int
  hn_ef_search :: int
  hn_ef_construction :: int
  hn_configuration :: "(string \<times> string) list"

definition Ivfflat_default :: ivfflat where
  "Ivfflat_default =
     \<lparr>iv_name = None, iv_lists = 100, iv_probes = 10, iv_dynamic_lists = True,
      iv_configuration = [(''maintenance_work_mem'', ''2GB'')]\<rparr>"

definition HNSW_default :: hnsw where
  "HNSW_default =
     \<lparr>hn_name = None, hn_m = 16, hn_ef_search = 5, hn_ef_construction = 200,
      hn_configuration = [(''maintenance_work_mem'', ''2GB'')]\<rparr>"

datatype index = Ivfflat ivfflat | HNSW hnsw

text \<open>The attributes of a \<open>PgVector\<close> object that its methods read.\<close>

record pgvector =
  pg_collection :: string
  pg_schema :: "string option"
  pg_dimensions :: nat
  pg_distance :: distance
  pg_index :: "index option"

section \<open>The backing table\<close>

text \<open>The nine columns of \<open>get_table\<close> (lines 101 to 115).\<close>

datatype column =
    Col_id
  | Col_name
  | Col_meta_data
  | Col_content
  | Col_embedding
  | Col_usage
  | Col_created_at
  | Col_updated_at
  | Col_content_hash

definition table_columns :: "(string \<times> column) list" where
  "table_columns =
     [(''id'', Col_id), (''name'', Col_name), (''meta_data'', Col_meta_data),
      (''content'', Col_content), (''embedding'', Col_embedding), (''usage'', Col_usage),
      (''created_at'', Col_created_at), (''updated_at'', Col_updated_at),
      (''content_hash'', Col_content_hash)]"

text \<open>
  A stored row. \<open>id\<close> is the primary key and so never null; every other column is
  declared without \<open>nullable=False\<close> and may hold SQL NULL (\<open>None\<close>).
\<close>

record row =
  r_id :: pystr
  r_name :: "pystr option"
  r_meta_data :: "json option"
  r_content :: "pystr option"
  r_embedding :: "vector option"
  r_usage :: "json option"
  r_created_at :: "nat option"
  r_updated_at :: "nat option"
  r_content_hash :: "pystr option"

text \<open>A value as it crosses the driver: what a filter compares with, what a fetched row holds.\<close>

datatype val = Null | Text pystr | Json json | Vec vector | Timestamp nat

definition nullable :: "('a \<Rightarrow> val) \<Rightarrow> 'a option \<Rightarrow> val" where
  "nullable f x = (case x of None \<Rightarrow> Null | Some y \<Rightarrow> f y)"

fun column_value :: "column \<Rightarrow> row \<Rightarrow> val" where
  "column_value Col_id r = Text (r_id r)"
| "column_value Col_name r = nullable Text (r_name r)"
| "column_value Col_meta_data r = nullable Json (r_meta_data r)"
| "column_value Col_content r = nullable Text (r_content r)"
| "column_value Col_embedding r = nullable Vec (r_embedding r)"
| "column_value Col_usage r = nullable Json (r_usage r)"
| "column_value Col_created_at r = nullable Timestamp (r_created_at r)"
| "column_value Col_updated_at r = nullable Timestamp (r_updated_at r)"
| "column_value Col_content_hash r = nullable Text (r_content_hash r)"

fun copy_column :: "column \<Rightarrow> row \<Rightarrow> row \<Rightarrow> row" where
  "copy_column Col_id ex r = r\<lparr>r_id := r_id ex\<rparr>"
| "copy_column Col_name ex r = r\<lparr>r_name := r_name ex\<rparr>"
| "copy_column Col_meta_data ex r = r\<lparr>r_meta_data := r_meta_data ex\<rparr>"
| "copy_column Col_content ex r = r\<lparr>r_content := r_content ex\<rparr>"
| "copy_column Col_embedding ex r = r\<lparr>r_embedding := r_embedding ex\<rparr>"
| "copy_column Col_usage ex r = r\<lparr>r_usage := r_usage ex\<rparr>"
| "copy_column Col_created_at ex r = r\<lparr>r_created_at := r_created_at ex\<rparr>"
| "copy_column Col_updated_at ex r = r\<lparr>r_updated_at := r_updated_at ex\<rparr>"
| "copy_column Col_content_hash ex r = r\<lparr>r_content_hash := r_content_hash ex\<rparr>"

section \<open>The relational engine\<close>

text \<open>
  The source drives PostgreSQL with the pgvector extension through SQLAlchemy
  sessions. The engine is outside the repository; what the methods rely on is
  modelled here: one collection's table (absent until it is provisioned), whether
  the engine answers at all, whether the vector extension can be created, and the
  clock behind \<open>now()\<close>.
\<close>

record db =
  reachable :: bool
  vector_available :: bool
  tbl :: "row list option"
  clock :: nat

text \<open>The statements sent as text.\<close>

datatype sql_text =
    CreateExtension
  | CreateSchema string
  | SetLocal string int
  | SetParam string string
  | SetProbes int
  | CreateIndex string string string string "(string \<times> int) list"

definition execute_text :: "sql_text \<Rightarrow> db \<Rightarrow> error + db" where
  "execute_text stmt d =
     (if reachable d then
        (case stmt of
           CreateExtension \<Rightarrow> if vector_available d then Inr d else Inl FeatureNotSupported
         | CreateIndex n t method ops params \<Rightarrow>
             (case tbl d of None \<Rightarrow> Inl UndefinedTable | Some rows \<Rightarrow> Inr d)
         | _ \<Rightarrow> Inr d)
      else Inl OperationalError)"

text \<open>\<open>inspect(engine).has_table(...)\<close>, \<open>table.create(engine)\<close>.\<close>

definition has_table :: "db \<Rightarrow> error + bool" where
  "has_table d = (if reachable d then Inr (tbl d \<noteq> None) else Inl OperationalError)"

definition table_create :: "db \<Rightarrow> error + db" where
  "table_create d =
     (if reachable d then
        (case tbl d of None \<Rightarrow> Inr (d\<lparr>tbl := Some []\<rparr>) | Some rows \<Rightarrow> Inl DuplicateTable)
      else Inl OperationalError)"

subsection \<open>Queries\<close>

text \<open>
  A \<open>select\<close> as the source builds it: the projected columns, the conjunction of
  its conditions, the ordering expressions on the embedding column, the limit. A
  condition is an equality predicate on a column, or a Python Boolean handed to
  \<open>where\<close>, which stands for the constant condition.
  What the pgvector operators compute is a parameter \<open>key\<close> of the engine: the sort
  key of a row under an ordering expression.
\<close>

datatype expr = Eq column val | Const bool

datatype order_expr = MaxInnerProduct vector | CosineDistance vector

record select =
  s_columns :: "column list"
  s_where :: "expr list"
  s_order_by :: "order_expr list"
  s_limit :: "int option"

type_synonym fetched = "(column \<times> val) list"

fun holds :: "expr \<Rightarrow> row \<Rightarrow> bool" where
  "holds (Eq c v) r = (column_value c r = v)"
| "holds (Const b) r = b"

definition project :: "column list \<Rightarrow> row \<Rightarrow> fetched" where
  "project cs r = map (\<lambda>c. (c, column_value c r)) cs"

definition select_rows :: "(order_expr \<Rightarrow> row \<Rightarrow> real) \<Rightarrow> select \<Rightarrow> row list \<Rightarrow> row list" where
  "select_rows key s rows =
     (let kept = filter (\<lambda>r. list_all (\<lambda>p. holds p r) (s_where s)) rows;
          ordered = foldr (\<lambda>ob rs. sort_key (key ob) rs) (s_order_by s) kept
      in case s_limit s of None \<Rightarrow> ordered | Some n \<Rightarrow> take (nat n) ordered)"

text \<open>The engine rejects a negative \<open>LIMIT\<close>.\<close>

definition limit_ok :: "select \<Rightarrow> bool" where
  "limit_ok s = (case s_limit s of None \<Rightarrow> True | Some n \<Rightarrow> 0 \<le> n)"

definition execute_select ::
  "(order_expr \<Rightarrow> row \<Rightarrow> real) \<Rightarrow> select \<Rightarrow> db \<Rightarrow> error + fetched list" where
  "execute_select key s d =
     (if reachable d then
        (case tbl d of
           None \<Rightarrow> Inl UndefinedTable
         | Some rows \<Rightarrow>
             if limit_ok s then Inr (map (project (s_columns s)) (select_rows key s rows))
             else Inl DataError)
      else Inl OperationalError)"

text \<open>
  \<open>select(func.count(column)).select_from(table)\<close> read with \<open>scalar()\<close>: SQL's
  \<open>count(column)\<close> counts the rows in which the column is not null.
\<close>

definition execute_count :: "column \<Rightarrow> db \<Rightarrow> error + int option" where
  "execute_count c d =
     (if reachable d then
        (case tbl d of
           None \<Rightarrow> Inl UndefinedTable
         | Some rows \<Rightarrow> Inr (Some (int (length (filter (\<lambda>r. column_value c r \<noteq> Null) rows)))))
      else Inl OperationalError)"

subsection \<open>Writes\<close>

text \<open>
  The \<open>values(...)\<close> of an insert statement, and the two statements of the write
  paths: a plain insert, and an insert whose \<open>on_conflict_do_update\<close> names the
  conflict target (\<open>index_elements\<close>) and the columns set from \<open>excluded\<close>.
\<close>

record row_values =
  v_id :: pystr
  v_name :: "pystr option"
  v_meta_data :: "json option"
  v_content :: pystr
  v_embedding :: "vector option"
  v_usage :: "json option"
  v_content_hash :: pystr

datatype write_stmt =
    Insert row_values
  | InsertOnConflictDoUpdate row_values "column list" "column list"

fun stmt_values :: "write_stmt \<Rightarrow> row_values" where
  "stmt_values (Insert v) = v"
| "stmt_values (InsertOnConflictDoUpdate v target sets) = v"

text \<open>
  The row proposed for insertion: \<open>created_at\<close> takes its server default \<open>now()\<close>,
  \<open>updated_at\<close> has none.
\<close>

definition proposed_row :: "nat \<Rightarrow> row_values \<Rightarrow> row" where
  "proposed_row t v =
     \<lparr>r_id = v_id v, r_name = v_name v, r_meta_data = v_meta_data v,
      r_content = Some (v_content v), r_embedding = v_embedding v, r_usage = v_usage v,
      r_created_at = Some t, r_updated_at = None, r_content_hash = Some (v_content_hash v)\<rparr>"

definition dimension_ok :: "nat \<Rightarrow> row_values \<Rightarrow> bool" where
  "dimension_ok dims v = (case v_embedding v of None \<Rightarrow> True | Some e \<Rightarrow> length e = dims)"

definition id_present :: "pystr \<Rightarrow> row list \<Rightarrow> bool" where
  "id_present i rows = list_ex (\<lambda>r. r_id r = i) rows"

text \<open>
  A plain insert fails on a duplicate primary key. With a conflict target \<open>id\<close>, a
  row of the same id is updated instead: each column of the \<open>set_\<close> list takes the
  value of the proposed row, every other column stays. The only unique constraint of
  the table is the primary key, so no other conflict target is accepted.
\<close>

definition execute_write :: "nat \<Rightarrow> write_stmt \<Rightarrow> db \<Rightarrow> error + db" where
  "execute_write dims stmt d =
     (if reachable d then
        (case tbl d of
           None \<Rightarrow> Inl UndefinedTable
         | Some rows \<Rightarrow>
             if dimension_ok dims (stmt_values stmt) then
               (case stmt of
                  Insert v \<Rightarrow>
                    if id_present (v_id v) rows then Inl UniqueViolation
                    else Inr (d\<lparr>tbl := Some (rows @ [proposed_row (clock d) v])\<rparr>)
                | InsertOnConflictDoUpdate v target sets \<Rightarrow>
                    if target = [Col_id] then
                      (if id_present (v_id v) rows then
                         Inr (d\<lparr>tbl := Some (map (\<lambda>r. if r_id r = v_id v
                                 then foldr (\<lambda>c. copy_column c (proposed_row (clock d) v)) sets r
                                 else r) rows)\<rparr>)
                       else Inr (d\<lparr>tbl := Some (rows @ [proposed_row (clock d) v])\<rparr>))
                    else Inl ProgrammingError)
             else Inl DataError)
      else Inl OperationalError)"

subsection \<open>Sessions\<close>

text \<open>
  A session sees its own uncommitted writes (\<open>pending\<close>); \<open>commit\<close> makes them
  durable. When the \<open>with\<close> block is left, by return or by exception, the session
  is closed and what was not committed is rolled back: the database is then
  \<open>durable\<close>. The field \<open>commits\<close> counts the calls of \<open>sess.commit()\<close>.
\<close>

record session =
  durable :: db
  pending :: db
  commits :: nat

definition Session :: "db \<Rightarrow> session" where
  "Session d = \<lparr>durable = d, pending = d, commits = 0\<rparr>"

definition session_execute :: "nat \<Rightarrow> write_stmt \<Rightarrow> session \<Rightarrow> error + session" where
  "session_execute dims stmt s =
     (case execute_write dims stmt (pending s) of
        Inl e \<Rightarrow> Inl e
      | Inr d \<Rightarrow> Inr (s\<lparr>pending := d\<rparr>))"

definition commit :: "session \<Rightarrow> session" where
  "commit s = s\<lparr>durable := pending s, commits := commits s + 1\<rparr>"

section \<open>The methods of \<open>PgVector\<close>\<close>

subsection \<open>Existence and provisioning\<close>

text \<open>
  \<open>table_exists\<close> (lines 117 to 122). The handler of the probe's exception calls
  \<open>logger.error(e)\<close>, and the module neither imports nor defines a name
  \<open>logger\<close>: evaluating it raises \<open>NameError\<close> inside the handler, so
  \<open>return False\<close> is never reached and the \<open>NameError\<close> leaves the method.
\<close>

definition table_exists :: "db \<Rightarrow> error + bool" where
  "table_exists d = (case has_table d of Inl e \<Rightarrow> Inl NameError | Inr b \<Rightarrow> Inr b)"

text \<open>\<open>exists\<close> (lines 318 to 319).\<close>

definition exists :: "db \<Rightarrow> error + bool" where
  "exists d = table_exists d"

text \<open>
  \<open>create\<close> (lines 124 to 131): the result is the exception raised, if any, with the
  database left behind.
\<close>

definition create :: "pgvector \<Rightarrow> db \<Rightarrow> error option \<times> db" where
  "create cfg d =
     (case table_exists d of
        Inl e \<Rightarrow> (Some e, d)
      | Inr True \<Rightarrow> (None, d)
      | Inr False \<Rightarrow>
          (case execute_text CreateExtension d of
             Inl e \<Rightarrow> (Some e, d)
           | Inr d1 \<Rightarrow>
               (case (case pg_schema cfg of
                        None \<Rightarrow> Inr d1
                      | Some sch \<Rightarrow> execute_text (CreateSchema sch) d1) of
                  Inl e \<Rightarrow> (Some e, d)
                | Inr d2 \<Rightarrow>
                    (case table_create d2 of
                       Inl e \<Rightarrow> (Some e, d2)
                     | Inr d3 \<Rightarrow> (None, d3)))))"

subsection \<open>Membership by content\<close>


subsection \<open>Insert and upsert\<close>

text \<open>
  The body of both loops up to \<open>values(...)\<close> (lines 179 to 191 and 218 to 230):
  embed, normalise the content, fingerprint it, derive the identity. Python's
  \<open>document.id or content_hash\<close> takes the fingerprint when the id is \<open>None\<close> and
  also when it is the empty string.
\<close>

definition document_values ::
  "embedder \<Rightarrow> (bytes \<Rightarrow> pystr) \<Rightarrow> document \<Rightarrow> error + row_values" where
  "document_values embedder md5 document =
     (case embed embedder document of
        Inl e \<Rightarrow> Inl e
      | Inr doc \<Rightarrow>
          (case doc_content doc of
             None \<Rightarrow> Inl AttributeError
           | Some c \<Rightarrow>
               (let cleaned_content = replace_null c in
                case content_digest md5 cleaned_content of
                  Inl e \<Rightarrow> Inl e
                | Inr content_hash \<Rightarrow>
                    Inr \<lparr>v_id = (case doc_id doc of
                                   None \<Rightarrow> content_hash
                                 | Some i \<Rightarrow> if i = [] then content_hash else i),
                         v_name = doc_name doc,
                         v_meta_data = doc_meta_data doc,
                         v_content = cleaned_content,
                         v_embedding = doc_embedding doc,
                         v_usage = doc_usage doc,
                         v_content_hash = content_hash\<rparr>)))"

text \<open>The statement of \<open>insert\<close> (line 183) and the statement of \<open>upsert\<close> (lines 222 to 242).\<close>

definition insert_statement :: "row_values \<Rightarrow> write_stmt" where
  "insert_statement v = Insert v"

definition upsert_statement :: "row_values \<Rightarrow> write_stmt" where
  "upsert_statement v =
     InsertOnConflictDoUpdate v [Col_id]
       [Col_name, Col_meta_data, Col_content, Col_embedding, Col_usage, Col_content_hash]"

text \<open>
  The loop of \<open>insert\<close> (lines 177 to 202) and of \<open>upsert\<close> (lines 216 to 253): the
  two differ only in the statement they execute, the parameter \<open>mk\<close>. An exception
  leaves the loop with the session as it stands.
\<close>

fun write_loop ::
  "(row_values \<Rightarrow> write_stmt) \<Rightarrow> pgvector \<Rightarrow> embedder \<Rightarrow> (bytes \<Rightarrow> pystr) \<Rightarrow> int \<Rightarrow>
   document list \<Rightarrow> int \<Rightarrow> session \<Rightarrow> error option \<times> session" where
  "write_loop mk cfg embedder md5 batch_size [] counter sess =
     (None, if counter > 0 then commit sess else sess)"
| "write_loop mk cfg embedder md5 batch_size (document # documents) counter sess =
     (case document_values embedder md5 document of
        Inl e \<Rightarrow> (Some e, sess)
      | Inr v \<Rightarrow>
          (case session_execute (pg_dimensions cfg) (mk v) sess of
             Inl e \<Rightarrow> (Some e, sess)
           | Inr sess1 \<Rightarrow>
               if counter + 1 \<ge> batch_size
               then write_loop mk cfg embedder md5 batch_size documents 0 (commit sess1)
               else write_loop mk cfg embedder md5 batch_size documents (counter + 1) sess1))"

definition insert_docs ::
  "pgvector \<Rightarrow> embedder \<Rightarrow> (bytes \<Rightarrow> pystr) \<Rightarrow> document list \<Rightarrow> int \<Rightarrow> db \<Rightarrow>
   error option \<times> session" where
  "insert_docs cfg embedder md5 documents batch_size d =
     write_loop insert_statement cfg embedder md5 batch_size documents 0 (Session d)"

definition upsert ::
  "pgvector \<Rightarrow> embedder \<Rightarrow> (bytes \<Rightarrow> pystr) \<Rightarrow> document list \<Rightarrow> int \<Rightarrow> db \<Rightarrow>
   error option \<times> session" where
  "upsert cfg embedder md5 documents batch_size d =
     write_loop upsert_statement cfg embedder md5 batch_size documents 0 (Session d)"

subsection \<open>Search\<close>

text \<open>
  \<open>hasattr(self.table.c, key)\<close> holds when the key names a column of the table, and
  also when it names any other attribute of the column collection object itself
  (every Python object has \<open>__class__\<close>, for one). For a column,
  \<open>getattr(self.table.c, key) == value\<close> is the equality predicate on it. What the
  other attributes are is a parameter \<open>attrs\<close> of the model: \<open>attrs key value\<close> is
  \<open>None\<close> when the object has no attribute of that name, and otherwise the Boolean
  that Python's \<open>==\<close> gives for the attribute and the value, which \<open>where\<close> then
  takes as a constant condition.
\<close>

definition column_of :: "string \<Rightarrow> column option" where
  "column_of key = map_of table_columns key"

type_synonym attributes = "string \<Rightarrow> val \<Rightarrow> bool option"

text \<open>The loop over \<open>filters.items()\<close> (lines 271 to 273).\<close>

fun apply_filters :: "attributes \<Rightarrow> (string \<times> val) list \<Rightarrow> select \<Rightarrow> select" where
  "apply_filters attrs [] stmt = stmt"
| "apply_filters attrs ((key, v) # filters) stmt =
     apply_filters attrs filters
       (case column_of key of
          Some c \<Rightarrow> stmt\<lparr>s_where := s_where stmt @ [Eq c v]\<rparr>
        | None \<Rightarrow>
            (case attrs key v of
               None \<Rightarrow> stmt
             | Some b \<Rightarrow> stmt\<lparr>s_where := s_where stmt @ [Const b]\<rparr>))"

definition order_by :: "order_expr \<Rightarrow> select \<Rightarrow> select" where
  "order_by ob stmt = stmt\<lparr>s_order_by := s_order_by stmt @ [ob]\<rparr>"

text \<open>The statement of \<open>search\<close> (lines 260 to 282).\<close>

definition search_statement ::
  "attributes \<Rightarrow> pgvector \<Rightarrow> vector \<Rightarrow> int \<Rightarrow> (string \<times> val) list option \<Rightarrow> select" where
  "search_statement attrs cfg query_embedding limit filters =
     (let stmt0 = \<lparr>s_columns = [Col_name, Col_meta_data, Col_content, Col_embedding, Col_usage],
                   s_where = [], s_order_by = [], s_limit = None\<rparr>;
          stmt1 = (case filters of None \<Rightarrow> stmt0 | Some fs \<Rightarrow> apply_filters attrs fs stmt0);
          stmt2 = (if pg_distance cfg = l2
                   then order_by (MaxInnerProduct query_embedding) stmt1 else stmt1);
          stmt3 = (if pg_distance cfg = cosine
                   then order_by (CosineDistance query_embedding) stmt2 else stmt2);
          stmt4 = (if pg_distance cfg = max_inner_product
                   then order_by (MaxInnerProduct query_embedding) stmt3 else stmt3)
      in stmt4\<lparr>s_limit := Some limit\<rparr>)"

text \<open>The \<open>try\<close> block (lines 286 to 293): the session parameter of the index, then the query.\<close>

definition session_parameter :: "index option \<Rightarrow> sql_text option" where
  "session_parameter idx =
     (case idx of
        None \<Rightarrow> None
      | Some (Ivfflat iv) \<Rightarrow> Some (SetLocal ''ivfflat.probes'' (iv_probes iv))
      | Some (HNSW h) \<Rightarrow> Some (SetLocal ''hnsw.ef_search'' (hn_ef_search h)))"

definition get_neighbors ::
  "(order_expr \<Rightarrow> row \<Rightarrow> real) \<Rightarrow> pgvector \<Rightarrow> select \<Rightarrow> db \<Rightarrow> error + fetched list" where
  "get_neighbors key cfg stmt d =
     (case (case session_parameter (pg_index cfg) of
              None \<Rightarrow> Inr d
            | Some t \<Rightarrow> execute_text t d) of
        Inl e \<Rightarrow> Inl e
      | Inr d1 \<Rightarrow> execute_select key stmt d1)"

text \<open>
  Building the results (lines 299 to 310). A fetched row has the attributes that
  were selected and no other; the document is built from five of them, and its id is
  left at its default \<open>None\<close>.
\<close>

definition attr :: "fetched \<Rightarrow> column \<Rightarrow> error + val" where
  "attr neighbor c = (case map_of neighbor c of None \<Rightarrow> Inl AttributeError | Some v \<Rightarrow> Inr v)"

fun as_text :: "val \<Rightarrow> pystr option" where
  "as_text (Text s) = Some s"
| "as_text v = None"

fun as_json :: "val \<Rightarrow> json option" where
  "as_json (Json j) = Some j"
| "as_json v = None"

fun as_vector :: "val \<Rightarrow> vector option" where
  "as_vector (Vec e) = Some e"
| "as_vector v = None"

definition neighbor_document :: "fetched \<Rightarrow> error + document" where
  "neighbor_document neighbor =
     (case attr neighbor Col_name of Inl e \<Rightarrow> Inl e | Inr n \<Rightarrow>
      case attr neighbor Col_meta_data of Inl e \<Rightarrow> Inl e | Inr md \<Rightarrow>
      case attr neighbor Col_content of Inl e \<Rightarrow> Inl e | Inr c \<Rightarrow>
      case attr neighbor Col_embedding of Inl e \<Rightarrow> Inl e | Inr em \<Rightarrow>
      case attr neighbor Col_usage of Inl e \<Rightarrow> Inl e | Inr u \<Rightarrow>
        Inr \<lparr>doc_id = None, doc_name = as_text n, doc_meta_data = as_json md,
             doc_content = as_text c, doc_embedding = as_vector em, doc_usage = as_json u\<rparr>)"

fun build_results :: "fetched list \<Rightarrow> error + document list" where
  "build_results [] = Inr []"
| "build_results (neighbor # neighbors) =
     (case neighbor_document neighbor of
        Inl e \<Rightarrow> Inl e
      | Inr doc \<Rightarrow>
          (case build_results neighbors of Inl e \<Rightarrow> Inl e | Inr docs \<Rightarrow> Inr (doc # docs)))"

text \<open>
  \<open>search\<close> (lines 255 to 312): the result is the list returned or the exception
  raised, with the database left behind.
\<close>

definition search ::
  "(order_expr \<Rightarrow> row \<Rightarrow> real) \<Rightarrow> attributes \<Rightarrow> pgvector \<Rightarrow> embedder \<Rightarrow> pystr \<Rightarrow> int \<Rightarrow>
   (string \<times> val) list option \<Rightarrow> db \<Rightarrow> (error + document list) \<times> db" where
  "search key attrs cfg embedder query limit filters d =
     (case embedder query of
        None \<Rightarrow> (Inr [], d)
      | Some query_embedding \<Rightarrow>
          (case get_neighbors key cfg (search_statement attrs cfg query_embedding limit filters) d of
             Inl e \<Rightarrow>
               (case create cfg d of
                  (Some e1, d1) \<Rightarrow> (Inl e1, d1)
                | (None, d1) \<Rightarrow> (Inr [], d1))
           | Inr neighbors \<Rightarrow> (build_results neighbors, d)))"

subsection \<open>Counting and index sizing\<close>

text \<open>
  \<open>get_count\<close> (lines 321 to 328): the statement counts the column \<open>name\<close>; a
  scalar of \<open>None\<close> gives 0.
\<close>

definition count_result :: "error + int option \<Rightarrow> error + int" where
  "count_result r =
     (case r of Inl e \<Rightarrow> Inl e | Inr None \<Rightarrow> Inr 0 | Inr (Some n) \<Rightarrow> Inr n)"

definition get_count :: "db \<Rightarrow> error + int" where
  "get_count d = count_result (execute_count Col_name d)"

text \<open>
  \<open>int(sqrt(n))\<close>: the integer part of the square root, computed on naturals. It
  agrees with the truncated floating-point root for every row count below \<open>2^52\<close>.
\<close>

fun isqrt :: "nat \<Rightarrow> nat" where
  "isqrt n =
     (if n < 2 then n
      else let s = 2 * isqrt (n div 4) in if (s + 1) * (s + 1) \<le> n then s + 1 else s)"

declare isqrt.simps [simp del]

text \<open>
  Lines 350 to 353, with \<open>num_lists\<close> holding the configured value and
  \<open>total_records\<close> the count, which is never negative: \<open>int(total_records / 1000)\<close>
  is then the integer quotient.
\<close>

definition dynamic_num_lists :: "int \<Rightarrow> int \<Rightarrow> int" where
  "dynamic_num_lists num_lists total_records =
     (if total_records < 1000000 then total_records div 1000
      else if total_records > 1000000 then int (isqrt (nat total_records))
      else num_lists)"

text \<open>Lines 347 to 353.\<close>

definition ivfflat_num_lists :: "ivfflat \<Rightarrow> db \<Rightarrow> error + int" where
  "ivfflat_num_lists iv d =
     (if iv_dynamic_lists iv then
        (case get_count d of
           Inl e \<Rightarrow> Inl e
         | Inr total_records \<Rightarrow> Inr (dynamic_num_lists (iv_lists iv) total_records))
      else Inr (iv_lists iv))"

text \<open>\<open>optimize\<close> (lines 330 to 378): the statements of its transaction, when all are accepted.\<close>

definition index_name :: "pgvector \<Rightarrow> index \<Rightarrow> string" where
  "index_name cfg idx =
     (case idx of
        Ivfflat iv \<Rightarrow>
          (case iv_name iv of None \<Rightarrow> pg_collection cfg @ ''_ivfflat_index'' | Some n \<Rightarrow> n)
      | HNSW h \<Rightarrow>
          (case hn_name h of None \<Rightarrow> pg_collection cfg @ ''_hnsw_index'' | Some n \<Rightarrow> n))"

definition index_distance :: "distance \<Rightarrow> string" where
  "index_distance metric =
     (if metric = max_inner_product then ''vector_ip_ops''
      else if metric = l2 then ''vector_l2_ops''
      else ''vector_cosine_ops'')"

definition table_name :: "pgvector \<Rightarrow> string" where
  "table_name cfg =
     (case pg_schema cfg of None \<Rightarrow> pg_collection cfg | Some sch \<Rightarrow> sch @ ''.'' @ pg_collection cfg)"

fun execute_all :: "sql_text list \<Rightarrow> db \<Rightarrow> error + db" where
  "execute_all [] d = Inr d"
| "execute_all (t # ts) d =
     (case execute_text t d of Inl e \<Rightarrow> Inl e | Inr d1 \<Rightarrow> execute_all ts d1)"

definition optimize :: "pgvector \<Rightarrow> db \<Rightarrow> error + sql_text list" where
  "optimize cfg d =
     (case pg_index cfg of
        None \<Rightarrow> Inr []
      | Some (Ivfflat iv) \<Rightarrow>
          (case ivfflat_num_lists iv d of
             Inl e \<Rightarrow> Inl e
           | Inr num_lists \<Rightarrow>
               (let stmts = map (\<lambda>(k, v). SetParam k v) (iv_configuration iv) @
                      [SetProbes (iv_probes iv),
                       CreateIndex (index_name cfg (Ivfflat iv)) (table_name cfg) ''ivfflat''
                         (index_distance (pg_distance cfg)) [(''lists'', num_lists)]]
                in case execute_all stmts d of Inl e \<Rightarrow> Inl e | Inr d1 \<Rightarrow> Inr stmts))
      | Some (HNSW h) \<Rightarrow>
          (let stmts = map (\<lambda>(k, v). SetParam k v) (hn_configuration h) @
                 [CreateIndex (index_name cfg (HNSW h)) (table_name cfg) ''hnsw''
                    (index_distance (pg_distance cfg))
                    [(''m'', hn_m h), (''ef_construction'', hn_ef_construction h)]]
           in case execute_all stmts d of Inl e \<Rightarrow> Inl e | Inr d1 \<Rightarrow> Inr stmts))"

section \<open>Reference definitions and example states\<close>

text \<open>
  The documents written one after the other in input order, with no batching: what
  the session of a write loop has seen once the loop is through. It is the
  reference the loops of \<open>insert\<close> and \<open>upsert\<close> are compared with.
\<close>

fun staged ::
  "(row_values \<Rightarrow> write_stmt) \<Rightarrow> pgvector \<Rightarrow> embedder \<Rightarrow> (bytes \<Rightarrow> pystr) \<Rightarrow>
   document list \<Rightarrow> db \<Rightarrow> error + db" where
  "staged mk cfg embedder md5 [] d = Inr d"
| "staged mk cfg embedder md5 (document # documents) d =
     (case document_values embedder md5 document of
        Inl e \<Rightarrow> Inl e
      | Inr v \<Rightarrow>
          (case execute_write (pg_dimensions cfg) (mk v) d of
             Inl e \<Rightarrow> Inl e
           | Inr d1 \<Rightarrow> staged mk cfg embedder md5 documents d1))"

text \<open>The number of documents written before the first one that fails.\<close>

fun written ::
  "(row_values \<Rightarrow> write_stmt) \<Rightarrow> pgvector \<Rightarrow> embedder \<Rightarrow> (bytes \<Rightarrow> pystr) \<Rightarrow>
   document list \<Rightarrow> db \<Rightarrow> nat" where
  "written mk cfg embedder md5 [] d = 0"
| "written mk cfg embedder md5 (document # documents) d =
     (case document_values embedder md5 document of
        Inl e \<Rightarrow> 0
      | Inr v \<Rightarrow>
          (case execute_write (pg_dimensions cfg) (mk v) d of
             Inl e \<Rightarrow> 0
           | Inr d1 \<Rightarrow> Suc (written mk cfg embedder md5 documents d1)))"

text \<open>A row after an upsert that met it: six columns from the new values, the rest kept.\<close>

definition replaced :: "row_values \<Rightarrow> row \<Rightarrow> row" where
  "replaced v r =
     r\<lparr>r_name := v_name v, r_meta_data := v_meta_data v, r_content := Some (v_content v),
       r_embedding := v_embedding v, r_usage := v_usage v,
       r_content_hash := Some (v_content_hash v)\<rparr>"

text \<open>The document a search builds from a row: five of the row's columns, and no id.\<close>

definition row_document :: "row \<Rightarrow> document" where
  "row_document r =
     \<lparr>doc_id = None, doc_name = r_name r, doc_meta_data = r_meta_data r,
      doc_content = r_content r, doc_embedding = r_embedding r, doc_usage = r_usage r\<rparr>"

text \<open>The predicates a filter mapping contributes, and the ordering expression of a metric.\<close>

definition filter_clause :: "attributes \<Rightarrow> string \<times> val \<Rightarrow> expr list" where
  "filter_clause attrs kv =
     (case column_of (fst kv) of
        Some c \<Rightarrow> [Eq c (snd kv)]
      | None \<Rightarrow> (case attrs (fst kv) (snd kv) of None \<Rightarrow> [] | Some b \<Rightarrow> [Const b]))"

definition filter_clauses :: "attributes \<Rightarrow> (string \<times> val) list option \<Rightarrow> expr list" where
  "filter_clauses attrs filters =
     (case filters of
        None \<Rightarrow> []
      | Some fs \<Rightarrow> concat (map (filter_clause attrs) fs))"

definition ordering :: "distance \<Rightarrow> vector \<Rightarrow> order_expr" where
  "ordering metric q =
     (case metric of
        l2 \<Rightarrow> MaxInnerProduct q
      | cosine \<Rightarrow> CosineDistance q
      | max_inner_product \<Rightarrow> MaxInnerProduct q)"

text \<open>Example states: a collection, an engine that does not answer, a table of a million rows.\<close>

definition docs_collection :: pgvector where
  "docs_collection =
     \<lparr>pg_collection = ''docs'', pg_schema = Some ''ai'', pg_dimensions = 2,
      pg_distance = cosine, pg_index = Some (Ivfflat Ivfflat_default)\<rparr>"

definition blank_row :: "pystr \<Rightarrow> pystr option \<Rightarrow> row" where
  "blank_row i n =
     \<lparr>r_id = i, r_name = n, r_meta_data = None, r_content = None, r_embedding = None,
      r_usage = None, r_created_at = Some 0, r_updated_at = None, r_content_hash = None\<rparr>"

definition table_db :: "row list \<Rightarrow> db" where
  "table_db rows = \<lparr>reachable = True, vector_available = True, tbl = Some rows, clock = 0\<rparr>"

definition unreachable_db :: db where
  "unreachable_db = \<lparr>reachable = False, vector_available = True, tbl = Some [], clock = 0\<rparr>"

definition million_rows :: db where
  "million_rows = table_db (map (\<lambda>i. blank_row [i] (Some [100])) [0..<1000000])"

text \<open>
  A database without the table: one where the vector extension can be created, and a
  cold one where it cannot.
\<close>

text \<open>
  The attribute every Python object has: \<open>__class__\<close>, a class, which equals no
  value a filter can carry.
\<close>

definition class_attribute :: attributes where
  "class_attribute key v = (if key = ''__class__'' then Some False else None)"

definition fresh_db :: db where
  "fresh_db = \<lparr>reachable = True, vector_available = True, tbl = None, clock = 0\<rparr>"

definition cold_db :: db where
  "cold_db = \<lparr>reachable = True, vector_available = False, tbl = None, clock = 0\<rparr>"


text \<open>
  Example inputs: a provider of two-dimensional embeddings, a digest that returns
  its bytes, three documents (the first with a null character, the third with an
  explicit id), the rows they become, and a database whose clock has moved on.
\<close>

definition unit_embedder :: embedder where
  "unit_embedder c = Some [0, 0]"

definition toy_md5 :: "bytes \<Rightarrow> pystr" where
  "toy_md5 b = b"

definition doc_a :: document where
  "doc_a = \<lparr>doc_id = None, doc_name = Some [97], doc_meta_data = None, doc_content = Some [97, 0],
            doc_embedding = None, doc_usage = None\<rparr>"

definition doc_b :: document where
  "doc_b = \<lparr>doc_id = None, doc_name = Some [98], doc_meta_data = None, doc_content = Some [98],
            doc_embedding = None, doc_usage = None\<rparr>"

definition row_a :: row where
  "row_a = \<lparr>r_id = [97, 239, 191, 189], r_name = Some [97], r_meta_data = None,
            r_content = Some [97, 65533], r_embedding = Some [0, 0], r_usage = None,
            r_created_at = Some 0, r_updated_at = None,
            r_content_hash = Some [97, 239, 191, 189]\<rparr>"

definition row_b :: row where
  "row_b = \<lparr>r_id = [98], r_name = Some [98], r_meta_data = None,
            r_content = Some [98], r_embedding = Some [0, 0], r_usage = None,
            r_created_at = Some 0, r_updated_at = None, r_content_hash = Some [98]\<rparr>"

definition doc_c :: document where
  "doc_c = \<lparr>doc_id = Some [98], doc_name = Some [99], doc_meta_data = Some (JObj []),
            doc_content = Some [99], doc_embedding = None, doc_usage = Some (JNum 3)\<rparr>"

definition row_c :: row where
  "row_c = \<lparr>r_id = [98], r_name = Some [99], r_meta_data = Some (JObj []),
            r_content = Some [99], r_embedding = Some [0, 0], r_usage = Some (JNum 3),
            r_created_at = Some 0, r_updated_at = None, r_content_hash = Some [99]\<rparr>"

definition later :: "db \<Rightarrow> db" where
  "later d = d\<lparr>clock := 7\<rparr>"

text \<open>
  More example inputs: a sort key under which the inner-product expression and the
  cosine distance order two rows in opposite ways, the example collection under each
  metric, a digest that compresses its bytes, and a document with null characters at
  both ends together with the row it becomes.
\<close>

definition toy_key :: "order_expr \<Rightarrow> row \<Rightarrow> real" where
  "toy_key ob r =
     (case ob of
        MaxInnerProduct q \<Rightarrow> if r_id r = [98] then 0 else 1
      | CosineDistance q \<Rightarrow> if r_id r = [98] then 1 else 0)"

definition collection_with :: "distance \<Rightarrow> pgvector" where
  "collection_with metric = docs_collection\<lparr>pg_distance := metric\<rparr>"




section \<open>Index sizing\<close>

lemma isqrt_small: "n < 2 \<Longrightarrow> isqrt n = n"
  by (subst isqrt.simps) simp

lemma isqrt_step:
  "\<not> n < 2 \<Longrightarrow> isqrt n =
     (if (2 * isqrt (n div 4) + 1) * (2 * isqrt (n div 4) + 1) \<le> n
      then 2 * isqrt (n div 4) + 1 else 2 * isqrt (n div 4))"
  by (subst isqrt.simps) (simp add: Let_def)

lemma isqrt_bounds: "isqrt n * isqrt n \<le> n \<and> n < (isqrt n + 1) * (isqrt n + 1)"
proof (induction n rule: isqrt.induct)
  case (1 n)
  show ?case
  proof (cases "n < 2")
    case True
    then have "n = 0 \<or> n = 1" by arith
    then show ?thesis using True by (auto simp: isqrt_small)
  next
    case False
    define r where "r = isqrt (n div 4)"
    from 1 False have IH: "r * r \<le> n div 4 \<and> n div 4 < (r + 1) * (r + 1)"
      by (simp add: r_def)
    have e: "isqrt n = (if (2 * r + 1) * (2 * r + 1) \<le> n then 2 * r + 1 else 2 * r)"
      using False by (simp add: isqrt_step r_def)
    define q where "q = r * r"
    define p where "p = (r + 1) * (r + 1)"
    from IH have "q \<le> n div 4" "n div 4 < p" by (simp_all add: q_def p_def)
    then have "4 * q \<le> n" "n < 4 * p" by arith+
    then have a: "(2 * r) * (2 * r) \<le> n" and b: "n < (2 * r + 1 + 1) * (2 * r + 1 + 1)"
      by (simp_all add: q_def p_def algebra_simps)
    show ?thesis
    proof (cases "(2 * r + 1) * (2 * r + 1) \<le> n")
      case True
      then show ?thesis using b by (simp add: e)
    next
      case False
      then show ?thesis using a by (simp add: e)
    qed
  qed
qed

lemma isqrt_floor: "int (isqrt n) = \<lfloor>sqrt (real n)\<rfloor>"
proof -
  let ?s = "isqrt n"
  from isqrt_bounds [of n] have a: "?s * ?s \<le> n" and b: "n < (?s + 1) * (?s + 1)"
    by simp_all
  from a have "real (?s * ?s) \<le> real n" by (rule iffD2 [OF of_nat_le_iff])
  then have "(real ?s)\<^sup>2 \<le> real n" by (simp add: power2_eq_square)
  then have lo: "real ?s \<le> sqrt (real n)" by (rule real_le_rsqrt)
  from b have "real n < real ((?s + 1) * (?s + 1))" by (rule iffD2 [OF of_nat_less_iff])
  then have "real n < (real ?s + 1)\<^sup>2" by (simp add: power2_eq_square algebra_simps)
  then have hi: "sqrt (real n) < real ?s + 1" by (intro real_less_lsqrt) simp_all
  show ?thesis using lo hi by (intro floor_unique [symmetric]) simp_all
qed

lemma isqrt_unique:
  assumes "k * k \<le> n" and "n < (k + 1) * (k + 1)"
  shows "isqrt n = k"
proof (rule ccontr)
  assume ne: "isqrt n \<noteq> k"
  from isqrt_bounds [of n] have a: "isqrt n * isqrt n \<le> n" and b: "n < (isqrt n + 1) * (isqrt n + 1)"
    by simp_all
  show False
  proof (cases "isqrt n < k")
    case True
    then have "isqrt n + 1 \<le> k" by simp
    then have "(isqrt n + 1) * (isqrt n + 1) \<le> k * k" by (simp add: mult_le_mono del: mult_Suc_right add_Suc_right)
    with b assms(1) show False by simp
  next
    case False
    with ne have "k + 1 \<le> isqrt n" by simp
    then have "(k + 1) * (k + 1) \<le> isqrt n * isqrt n" by (simp add: mult_le_mono del: mult_Suc_right add_Suc_right)
    with a assms(2) show False by simp
  qed
qed


lemma dynamic_num_lists_below:
  "total_records < 1000000 \<Longrightarrow> dynamic_num_lists n total_records = total_records div 1000"
  by (simp add: dynamic_num_lists_def)

lemma dynamic_num_lists_above:
  "1000000 < total_records \<Longrightarrow>
     dynamic_num_lists n total_records = \<lfloor>sqrt (real_of_int total_records)\<rfloor>"
  by (simp add: dynamic_num_lists_def isqrt_floor)

lemma dynamic_num_lists_500000: "dynamic_num_lists n 500000 = 500"
  by (simp add: dynamic_num_lists_def)

lemma dynamic_num_lists_4000000: "dynamic_num_lists n 4000000 = 2000"
proof -
  have "isqrt 4000000 = 2000" by (rule isqrt_unique) simp_all
  then show ?thesis by (simp add: dynamic_num_lists_def)
qed

lemma ivfflat_num_lists_static:
  "\<not> iv_dynamic_lists iv \<Longrightarrow> ivfflat_num_lists iv d = Inr (iv_lists iv)"
  by (simp add: ivfflat_num_lists_def)

lemma get_count_million_rows: "get_count million_rows = Inr 1000000"
  by (simp add: get_count_def count_result_def execute_count_def million_rows_def table_db_def
      blank_row_def nullable_def o_def)

text \<open>
  C1. For a list index with dynamic sizing, \<open>optimize\<close> should size the index from
  the row count: the quotient by 1000 below a million rows, the truncated square root
  at or above a million. The two branches of the source test \<open>< 1000000\<close> and
  \<open>> 1000000\<close>, so a table of exactly one million rows takes neither: with the
  default \<open>Ivfflat\<close> (100 lists, dynamic) the index is built with the configured 100
  lists, where the square root is 1000.
\<close>

theorem optimize_one_million_rows:
  "optimize docs_collection million_rows =
     Inr [SetParam ''maintenance_work_mem'' ''2GB'', SetProbes 10,
          CreateIndex ''docs_ivfflat_index'' ''ai.docs'' ''ivfflat'' ''vector_cosine_ops''
            [(''lists'', 100)]]
   \<and> dynamic_num_lists 100 1000000 = 100
   \<and> int (isqrt 1000000) = 1000"
proof -
  have root: "isqrt 1000000 = 1000" by (rule isqrt_unique) simp_all
  have lists: "ivfflat_num_lists Ivfflat_default million_rows = Inr 100"
    by (simp add: ivfflat_num_lists_def get_count_million_rows dynamic_num_lists_def
        Ivfflat_default_def)
  have ok: "reachable million_rows" "tbl million_rows \<noteq> None"
    by (simp_all add: million_rows_def table_db_def)
  have "optimize docs_collection million_rows =
     Inr [SetParam ''maintenance_work_mem'' ''2GB'', SetProbes 10,
          CreateIndex ''docs_ivfflat_index'' ''ai.docs'' ''ivfflat'' ''vector_cosine_ops''
            [(''lists'', 100)]]"
  proof -
    have fields: "iv_name Ivfflat_default = None" "iv_probes Ivfflat_default = 10"
      "iv_configuration Ivfflat_default = [(''maintenance_work_mem'', ''2GB'')]"
      by (simp_all add: Ivfflat_default_def)
    from ok obtain rows where "tbl million_rows = Some rows" by auto
    with ok show ?thesis
      by (simp add: optimize_def docs_collection_def lists fields index_name_def
          table_name_def index_distance_def execute_text_def)
  qed
  then show ?thesis
    using root by (simp add: dynamic_num_lists_def)
qed

section \<open>Existence probe and count\<close>

lemma table_exists_reachable: "reachable d \<Longrightarrow> table_exists d = Inr (tbl d \<noteq> None)"
  by (simp add: table_exists_def has_table_def)

lemma table_exists_probe_raises: "has_table d = Inl e \<Longrightarrow> table_exists d = Inl NameError"
  by (simp add: table_exists_def)

text \<open>
  C6. When the existence probe raises, \<open>table_exists\<close> and \<open>exists\<close> should log the
  error and answer false. The handler's \<open>logger\<close> is an undefined name: on an engine
  that does not answer, the probe raises and both methods raise \<open>NameError\<close> instead
  of returning false.
\<close>

theorem table_exists_unreachable:
  "has_table unreachable_db = Inl OperationalError
   \<and> table_exists unreachable_db = Inl NameError
   \<and> exists unreachable_db = Inl NameError"
  by (simp add: exists_def table_exists_def has_table_def unreachable_db_def)

lemma get_count_named:
  "reachable d \<Longrightarrow> tbl d = Some rows \<Longrightarrow> list_all (\<lambda>r. r_name r \<noteq> None) rows \<Longrightarrow>
     get_count d = Inr (int (length rows))"
proof -
  assume a: "reachable d" "tbl d = Some rows" and n: "list_all (\<lambda>r. r_name r \<noteq> None) rows"
  from n have "filter (\<lambda>r. column_value Col_name r \<noteq> Null) rows = rows"
    by (induction rows) (auto simp: nullable_def)
  with a show ?thesis
    by (simp add: get_count_def count_result_def execute_count_def)
qed

lemma count_result_none: "count_result (Inr None) = Inr 0"
  by (simp add: count_result_def)

text \<open>
  C9. \<open>get_count\<close> should return the number of rows of the table, whatever the table
  holds. Its statement is \<open>count(name)\<close>, which skips the rows whose name is null: on
  a table of one row with no name it returns 0.
\<close>

theorem get_count_nameless_row:
  "get_count (table_db [blank_row [120] None]) = Inr 0
   \<and> tbl (table_db [blank_row [120] None]) = Some [blank_row [120] None]
   \<and> length [blank_row [120] None] = 1"
  by (simp add: get_count_def count_result_def execute_count_def table_db_def blank_row_def
      nullable_def)

section \<open>The statement of a search\<close>

lemma apply_filters_order_by: "s_order_by (apply_filters attrs fs stmt) = s_order_by stmt"
  by (induction attrs fs stmt rule: apply_filters.induct) (simp_all split: option.splits)

lemma apply_filters_columns: "s_columns (apply_filters attrs fs stmt) = s_columns stmt"
  by (induction attrs fs stmt rule: apply_filters.induct) (simp_all split: option.splits)

lemma apply_filters_limit: "s_limit (apply_filters attrs fs stmt) = s_limit stmt"
  by (induction attrs fs stmt rule: apply_filters.induct) (simp_all split: option.splits)

lemma apply_filters_where:
  "s_where (apply_filters attrs fs stmt) = s_where stmt @ concat (map (filter_clause attrs) fs)"
  by (induction attrs fs stmt rule: apply_filters.induct)
     (simp_all add: filter_clause_def split: option.splits)

lemma search_statement_eq:
  "search_statement attrs cfg q limit filters =
     \<lparr>s_columns = [Col_name, Col_meta_data, Col_content, Col_embedding, Col_usage],
      s_where = filter_clauses attrs filters,
      s_order_by = [ordering (pg_distance cfg) q],
      s_limit = Some limit\<rparr>"
  by (cases "pg_distance cfg"; cases filters)
     (simp_all add: search_statement_def order_by_def filter_clauses_def ordering_def
        apply_filters_order_by apply_filters_columns apply_filters_limit apply_filters_where)

lemma column_of_known:
  "(column_of k \<noteq> None) =
     (k \<in> {''id'', ''name'', ''meta_data'', ''content'', ''embedding'', ''usage'',
            ''created_at'', ''updated_at'', ''content_hash''})"
  by (simp add: column_of_def table_columns_def)

text \<open>
  The filters whose keys name columns become equality predicates, in the order of the
  mapping. When no key of the mapping names another attribute of the column
  collection, the entries whose keys name no column contribute nothing: the search
  is the search without them, in its result, in its failure and in the database it
  leaves.
\<close>

lemma known_clauses:
  assumes "list_all (\<lambda>kv. column_of (fst kv) \<noteq> None \<or> attrs (fst kv) (snd kv) = None) fs"
  shows "concat (map (filter_clause attrs) (filter (\<lambda>kv. column_of (fst kv) \<noteq> None) fs)) =
     concat (map (filter_clause attrs) fs)"
  using assms by (induction fs) (auto simp add: filter_clause_def split: option.splits)

lemma column_clauses:
  "concat (map (filter_clause attrs) (filter (\<lambda>kv. column_of (fst kv) \<noteq> None) fs)) =
     concat (map (\<lambda>kv. case column_of (fst kv) of None \<Rightarrow> [] | Some c \<Rightarrow> [Eq c (snd kv)]) fs)"
  by (induction fs) (auto simp add: filter_clause_def split: option.splits)

lemma search_filters_columns:
  assumes "list_all (\<lambda>kv. column_of (fst kv) \<noteq> None \<or> attrs (fst kv) (snd kv) = None) fs"
  shows "s_where (search_statement attrs cfg q limit (Some fs)) =
       concat (map (\<lambda>kv. case column_of (fst kv) of None \<Rightarrow> [] | Some c \<Rightarrow> [Eq c (snd kv)]) fs)"
    and "search key attrs cfg emb query limit (Some fs) d =
       search key attrs cfg emb query limit
         (Some (filter (\<lambda>kv. column_of (fst kv) \<noteq> None) fs)) d"
proof -
  have eq: "search_statement attrs cfg q limit
        (Some (filter (\<lambda>kv. column_of (fst kv) \<noteq> None) fs)) =
      search_statement attrs cfg q limit (Some fs)" for q
    unfolding search_statement_eq filter_clauses_def option.case known_clauses [OF assms] ..
  show "s_where (search_statement attrs cfg q limit (Some fs)) =
      concat (map (\<lambda>kv. case column_of (fst kv) of None \<Rightarrow> [] | Some c \<Rightarrow> [Eq c (snd kv)]) fs)"
    using known_clauses [OF assms] column_clauses [of attrs fs]
    by (simp add: search_statement_eq filter_clauses_def)
  show "search key attrs cfg emb query limit (Some fs) d =
      search key attrs cfg emb query limit
        (Some (filter (\<lambda>kv. column_of (fst kv) \<noteq> None) fs)) d"
    unfolding search_def eq ..
qed

section \<open>The results of a search\<close>

lemma attr_project:
  "c \<in> set cs \<Longrightarrow> attr (project cs r) c = Inr (column_value c r)"
proof -
  assume "c \<in> set cs"
  then have "map_of (map (\<lambda>c. (c, column_value c r)) cs) c = Some (column_value c r)"
    by (induction cs) auto
  then show ?thesis by (simp add: attr_def project_def)
qed

lemma as_nullable [simp]:
  "as_text (nullable Text x) = x" "as_json (nullable Json y) = y" "as_vector (nullable Vec z) = z"
  by (simp_all add: nullable_def split: option.splits)

lemma neighbor_document_project:
  "neighbor_document (project [Col_name, Col_meta_data, Col_content, Col_embedding, Col_usage] r) =
     Inr (row_document r)"
  by (simp add: neighbor_document_def attr_project row_document_def)

lemma build_results_project:
  "build_results (map (project [Col_name, Col_meta_data, Col_content, Col_embedding, Col_usage]) rs) =
     Inr (map row_document rs)"
  by (induction rs) (simp_all add: neighbor_document_project)

lemma select_rows_subset: "set (select_rows key s rows) \<subseteq> set rows"
proof -
  have ord: "set (foldr (\<lambda>ob rs. sort_key (key ob) rs) obs xs) = set xs" for obs xs
    by (induction obs) simp_all
  have "set (take n (foldr (\<lambda>ob rs. sort_key (key ob) rs) obs (filter P rows))) \<subseteq> set rows"
    for n obs P
    using set_take_subset [of n "foldr (\<lambda>ob rs. sort_key (key ob) rs) obs (filter P rows)"]
    by (auto simp: ord)
  then show ?thesis
    by (auto simp: select_rows_def Let_def ord split: option.splits)
qed

lemma select_rows_length:
  "s_limit s = Some limit \<Longrightarrow> length (select_rows key s rows) \<le> nat limit"
  by (simp add: select_rows_def Let_def)

lemma get_neighbors_cases:
  "get_neighbors key cfg stmt d =
     (if reachable d then
        (case tbl d of
           None \<Rightarrow> Inl UndefinedTable
         | Some rows \<Rightarrow>
             if limit_ok stmt then Inr (map (project (s_columns stmt)) (select_rows key stmt rows))
             else Inl DataError)
      else Inl OperationalError)"
  by (simp add: get_neighbors_def session_parameter_def execute_text_def execute_select_def
      split: option.splits index.splits)

lemma create_reachable:
  "reachable d \<Longrightarrow> create cfg d =
     (if tbl d \<noteq> None then (None, d)
      else if vector_available d then (None, d\<lparr>tbl := Some []\<rparr>)
      else (Some FeatureNotSupported, d))"
  by (auto simp add: create_def table_exists_def has_table_def execute_text_def table_create_def
      split: option.splits)


text \<open>
  C10. The statement of a search selects the five columns name, meta_data, content,
  embedding and usage, and never id, content_hash, created_at or updated_at. Whenever
  a search returns, each document it returns is built from those five columns of a
  stored row, carries no id, and there are at most \<open>limit\<close> of them (none when the
  limit is negative).
\<close>

theorem search_results_projection:
  assumes "search key attrs cfg emb query limit filters d = (Inr docs, d')"
  shows "s_columns (search_statement attrs cfg qe limit filters) =
       [Col_name, Col_meta_data, Col_content, Col_embedding, Col_usage]
     \<and> (\<exists>rs. docs = map row_document rs
           \<and> set rs \<subseteq> (case tbl d of None \<Rightarrow> {} | Some rows \<Rightarrow> set rows))
     \<and> list_all (\<lambda>doc. doc_id doc = None) docs
     \<and> length docs \<le> nat limit"
proof -
  have cols: "s_columns (search_statement attrs cfg qe limit filters) =
       [Col_name, Col_meta_data, Col_content, Col_embedding, Col_usage]"
    by (simp add: search_statement_eq)
  have built: "\<exists>rs. docs = map row_document rs
       \<and> set rs \<subseteq> (case tbl d of None \<Rightarrow> {} | Some rows \<Rightarrow> set rows)
       \<and> length rs \<le> nat limit"
  proof (cases "emb query")
    case None
    with assms have "docs = []" by (simp add: search_def)
    then show ?thesis by simp
  next
    case (Some q)
    let ?stmt = "search_statement attrs cfg q limit filters"
    show ?thesis
    proof (cases "get_neighbors key cfg ?stmt d")
      case (Inl e)
      with Some assms have "docs = []"
        by (auto simp add: search_def split: prod.splits option.splits)
      then show ?thesis by simp
    next
      case (Inr neighbors)
      then obtain rows where rows: "tbl d = Some rows"
        and nb: "neighbors = map (project (s_columns ?stmt)) (select_rows key ?stmt rows)"
        by (auto simp add: get_neighbors_cases split: if_splits option.splits)
      from Some Inr assms have "build_results neighbors = Inr docs"
        by (simp add: search_def)
      with nb have "docs = map row_document (select_rows key ?stmt rows)"
        by (simp add: search_statement_eq build_results_project)
      moreover have "set (select_rows key ?stmt rows) \<subseteq> set rows"
        by (rule select_rows_subset)
      moreover have "length (select_rows key ?stmt rows) \<le> nat limit"
        by (rule select_rows_length) (simp add: search_statement_eq)
      ultimately show ?thesis using rows by auto
    qed
  qed
  then obtain rs where rs: "docs = map row_document rs"
    "set rs \<subseteq> (case tbl d of None \<Rightarrow> {} | Some rows \<Rightarrow> set rows)" "length rs \<le> nat limit"
    by blast
  from rs(1) have "list_all (\<lambda>doc. doc_id doc = None) docs"
    by (simp add: list_all_iff row_document_def)
  with cols rs show ?thesis by auto
qed

theorem search_results_projection_witness:
  "search (\<lambda>ob r. 0) class_attribute docs_collection (\<lambda>q. Some [0, 0]) [113] 1 None
       (table_db [blank_row [1] (Some [97]), blank_row [2] (Some [98])]) =
     (Inr [row_document (blank_row [1] (Some [97]))],
      table_db [blank_row [1] (Some [97]), blank_row [2] (Some [98])])
   \<and> list_all (\<lambda>doc. doc_id doc = None) [row_document (blank_row [1] (Some [97]))]
   \<and> length [row_document (blank_row [1] (Some [97]))] \<le> nat 1"
proof -
  have h: "search (\<lambda>ob r. 0) class_attribute docs_collection (\<lambda>q. Some [0, 0]) [113] 1 None
       (table_db [blank_row [1] (Some [97]), blank_row [2] (Some [98])]) =
     (Inr [row_document (blank_row [1] (Some [97]))],
      table_db [blank_row [1] (Some [97]), blank_row [2] (Some [98])])"
    by (simp add: search_def get_neighbors_cases search_statement_eq filter_clauses_def
        table_db_def limit_ok_def select_rows_def neighbor_document_project)
  show ?thesis using h search_results_projection [OF h] by simp
qed

section \<open>The order of the results\<close>

lemma search_fetched:
  assumes "reachable d" and "tbl d = Some rows" and "0 \<le> limit" and "embedder query = Some q"
  shows "search key attrs cfg embedder query limit filters d =
     (Inr (map row_document (select_rows key (search_statement attrs cfg q limit filters) rows)), d)"
proof -
  have "limit_ok (search_statement attrs cfg q limit filters)"
    using assms(3) by (simp add: limit_ok_def search_statement_eq)
  with assms show ?thesis
    by (simp add: search_def get_neighbors_cases)
       (simp add: search_statement_eq build_results_project)
qed

text \<open>
  C3. The ordering of a search depends on the configured metric alone: for L2 and for
  max-inner-product the statement orders by the same inner-product expression on the
  embedding column, for cosine by the cosine distance to the query embedding. What
  \<open>search\<close> returns, when the engine answers, is the documents of the filtered rows
  sorted by that one expression and cut at the limit, in that order.
\<close>

theorem search_ordering:
  "s_order_by (search_statement attrs cfg q limit filters) =
     (case pg_distance cfg of
        l2 \<Rightarrow> [MaxInnerProduct q]
      | cosine \<Rightarrow> [CosineDistance q]
      | max_inner_product \<Rightarrow> [MaxInnerProduct q])
   \<and> select_rows key (search_statement attrs cfg q limit filters) rows =
     take (nat limit)
       (sort_key
          (key (case pg_distance cfg of
                  l2 \<Rightarrow> MaxInnerProduct q
                | cosine \<Rightarrow> CosineDistance q
                | max_inner_product \<Rightarrow> MaxInnerProduct q))
          (filter (\<lambda>r. list_all (\<lambda>p. holds p r)
                          (s_where (search_statement attrs cfg q limit filters)))
             rows))
   \<and> (reachable d \<and> tbl d = Some rows \<and> 0 \<le> limit \<and> embedder query = Some q \<longrightarrow>
      search key attrs cfg embedder query limit filters d =
        (Inr (map row_document
           (take (nat limit)
              (sort_key
                 (key (case pg_distance cfg of
                         l2 \<Rightarrow> MaxInnerProduct q
                       | cosine \<Rightarrow> CosineDistance q
                       | max_inner_product \<Rightarrow> MaxInnerProduct q))
                 (filter (\<lambda>r. list_all (\<lambda>p. holds p r)
                                 (s_where (search_statement attrs cfg q limit filters)))
                    rows)))),
         d))"
proof -
  have ord: "s_order_by (search_statement attrs cfg q limit filters) =
     (case pg_distance cfg of
        l2 \<Rightarrow> [MaxInnerProduct q]
      | cosine \<Rightarrow> [CosineDistance q]
      | max_inner_product \<Rightarrow> [MaxInnerProduct q])"
    by (cases "pg_distance cfg") (simp_all add: search_statement_eq ordering_def)
  have sel: "select_rows key (search_statement attrs cfg q limit filters) rows =
     take (nat limit)
       (sort_key
          (key (case pg_distance cfg of
                  l2 \<Rightarrow> MaxInnerProduct q
                | cosine \<Rightarrow> CosineDistance q
                | max_inner_product \<Rightarrow> MaxInnerProduct q))
          (filter (\<lambda>r. list_all (\<lambda>p. holds p r)
                          (s_where (search_statement attrs cfg q limit filters)))
             rows))"
    by (cases "pg_distance cfg") (simp_all add: search_statement_eq ordering_def select_rows_def)
  show ?thesis
  proof (intro conjI impI)
    show "s_order_by (search_statement attrs cfg q limit filters) =
     (case pg_distance cfg of
        l2 \<Rightarrow> [MaxInnerProduct q]
      | cosine \<Rightarrow> [CosineDistance q]
      | max_inner_product \<Rightarrow> [MaxInnerProduct q])"
      by (rule ord)
    show "select_rows key (search_statement attrs cfg q limit filters) rows =
     take (nat limit)
       (sort_key
          (key (case pg_distance cfg of
                  l2 \<Rightarrow> MaxInnerProduct q
                | cosine \<Rightarrow> CosineDistance q
                | max_inner_product \<Rightarrow> MaxInnerProduct q))
          (filter (\<lambda>r. list_all (\<lambda>p. holds p r)
                          (s_where (search_statement attrs cfg q limit filters)))
             rows))"
      by (rule sel)
    assume a: "reachable d \<and> tbl d = Some rows \<and> 0 \<le> limit \<and> embedder query = Some q"
    then have "search key attrs cfg embedder query limit filters d =
        (Inr (map row_document (select_rows key (search_statement attrs cfg q limit filters) rows)),
         d)"
      by (intro search_fetched) simp_all
    then show "search key attrs cfg embedder query limit filters d =
        (Inr (map row_document
           (take (nat limit)
              (sort_key
                 (key (case pg_distance cfg of
                         l2 \<Rightarrow> MaxInnerProduct q
                       | cosine \<Rightarrow> CosineDistance q
                       | max_inner_product \<Rightarrow> MaxInnerProduct q))
                 (filter (\<lambda>r. list_all (\<lambda>p. holds p r)
                                 (s_where (search_statement attrs cfg q limit filters)))
                    rows)))),
         d)"
      by (simp only: sel)
  qed
qed

theorem search_ordering_witness:
  "reachable (table_db [row_a, row_b])
   \<and> tbl (table_db [row_a, row_b]) = Some [row_a, row_b]
   \<and> (0::int) \<le> 5
   \<and> unit_embedder [113] = Some [0, 0]
   \<and> search toy_key class_attribute (collection_with l2) unit_embedder [113] 5 None
        (table_db [row_a, row_b]) =
       (Inr [row_document row_b, row_document row_a], table_db [row_a, row_b])
   \<and> search toy_key class_attribute (collection_with max_inner_product) unit_embedder [113] 5 None
        (table_db [row_a, row_b]) =
       (Inr [row_document row_b, row_document row_a], table_db [row_a, row_b])
   \<and> search toy_key class_attribute (collection_with cosine) unit_embedder [113] 5 None
        (table_db [row_a, row_b]) =
       (Inr [row_document row_a, row_document row_b], table_db [row_a, row_b])
   \<and> search toy_key class_attribute (collection_with l2) unit_embedder [113] 1 None
        (table_db [row_a, row_b]) =
       (Inr [row_document row_b], table_db [row_a, row_b])
   \<and> row_document row_a \<noteq> row_document row_b"
proof -
  have db: "reachable (table_db [row_a, row_b])"
    "tbl (table_db [row_a, row_b]) = Some [row_a, row_b]"
    by (simp_all add: table_db_def)
  have q: "unit_embedder [113] = Some [0, 0]" by (simp add: unit_embedder_def)
  have lim: "(0::int) \<le> 5" "(0::int) \<le> 1" by simp_all
  have ids: "r_id row_a \<noteq> [98]" "r_id row_b = [98]" by (simp_all add: row_a_def row_b_def)
  have metric: "pg_distance (collection_with m) = m" for m
    by (simp add: collection_with_def)
  have no_filter: "s_where (search_statement class_attribute (collection_with m) [0, 0] n None) = []"
    for m n
    by (simp add: search_statement_eq filter_clauses_def)
  have distinct: "row_document row_a \<noteq> row_document row_b"
    by (simp add: row_document_def row_a_def row_b_def)
  note inst = search_ordering [where key = toy_key and attrs = class_attribute
      and embedder = unit_embedder and query = "[113]" and q = "[0, 0]" and filters = None
      and d = "table_db [row_a, row_b]" and rows = "[row_a, row_b]"]
  have a: "search toy_key class_attribute (collection_with l2) unit_embedder [113] 5 None
        (table_db [row_a, row_b]) =
       (Inr [row_document row_b, row_document row_a], table_db [row_a, row_b])"
    using inst [where cfg = "collection_with l2" and limit = 5] db q
    by (simp add: metric no_filter toy_key_def ids)
  have b: "search toy_key class_attribute (collection_with max_inner_product) unit_embedder [113] 5
        None (table_db [row_a, row_b]) =
       (Inr [row_document row_b, row_document row_a], table_db [row_a, row_b])"
    using inst [where cfg = "collection_with max_inner_product" and limit = 5] db q
    by (simp add: metric no_filter toy_key_def ids)
  have c: "search toy_key class_attribute (collection_with cosine) unit_embedder [113] 5 None
        (table_db [row_a, row_b]) =
       (Inr [row_document row_a, row_document row_b], table_db [row_a, row_b])"
    using inst [where cfg = "collection_with cosine" and limit = 5] db q
    by (simp add: metric no_filter toy_key_def ids)
  have e: "search toy_key class_attribute (collection_with l2) unit_embedder [113] 1 None
        (table_db [row_a, row_b]) =
       (Inr [row_document row_b], table_db [row_a, row_b])"
    using inst [where cfg = "collection_with l2" and limit = 1] db q
    by (simp add: metric no_filter toy_key_def ids)
  from db q lim a b c e distinct show ?thesis by blast
qed

section \<open>Filters on attributes that are not columns\<close>

text \<open>
  C8. An entry of the filters whose key names no column should be ignored. The
  guard of the loop is \<open>hasattr\<close> on the column collection object, which also holds
  for the object's own attributes. The key \<open>__class__\<close> names no column, yet it
  passes the guard: the class is compared with the value, the result \<open>False\<close> goes
  to \<open>where\<close>, and the search that returns a row without the filter returns none
  with it.
\<close>

theorem search_filter_on_object_attribute:
  "column_of ''__class__'' = None
   \<and> s_where (search_statement class_attribute docs_collection [0, 0] 5
        (Some [(''__class__'', Text [120])])) = [Const False]
   \<and> search (\<lambda>ob r. 0) class_attribute docs_collection unit_embedder [113] 5
        (Some [(''__class__'', Text [120])]) (table_db [row_a]) =
       (Inr [], table_db [row_a])
   \<and> search (\<lambda>ob r. 0) class_attribute docs_collection unit_embedder [113] 5 None
        (table_db [row_a]) =
       (Inr [row_document row_a], table_db [row_a])"
proof -
  have none: "column_of ''__class__'' = None"
    by (simp add: column_of_def table_columns_def)
  have clause: "filter_clauses class_attribute (Some [(''__class__'', Text [120])]) =
      [Const False]"
    by (simp add: filter_clauses_def filter_clause_def none class_attribute_def)
  have db: "reachable (table_db [row_a])" "tbl (table_db [row_a]) = Some [row_a]"
    by (simp_all add: table_db_def)
  have with_filter: "search (\<lambda>ob r. 0) class_attribute docs_collection unit_embedder [113] 5
        (Some [(''__class__'', Text [120])]) (table_db [row_a]) = (Inr [], table_db [row_a])"
    by (simp add: search_def unit_embedder_def get_neighbors_cases search_statement_eq clause db
        limit_ok_def select_rows_def)
  have without: "search (\<lambda>ob r. 0) class_attribute docs_collection unit_embedder [113] 5 None
        (table_db [row_a]) = (Inr [row_document row_a], table_db [row_a])"
    by (simp add: search_def unit_embedder_def get_neighbors_cases search_statement_eq
        filter_clauses_def db limit_ok_def select_rows_def neighbor_document_project)
  show ?thesis
    using none clause with_filter without by (simp add: search_statement_eq)
qed

section \<open>Recovery of a failed search\<close>

text \<open>
  C4, as the code has it. When the similarity statement fails on an engine that
  answers the existence probe, \<open>search\<close> calls \<open>create\<close>: if the table exists
  nothing is provisioned and the result is empty; if the table is missing and the
  vector extension can be created, the table is provisioned and the result is empty;
  if the extension is rejected, that error of \<open>create\<close> reaches the caller.
\<close>

theorem search_recovery:
  assumes "reachable d" and "embedder query = Some qe"
    and "get_neighbors key cfg (search_statement attrs cfg qe limit filters) d = Inl e"
  shows "search key attrs cfg embedder query limit filters d =
     (if tbl d \<noteq> None then (Inr [], d)
      else if vector_available d then (Inr [], d\<lparr>tbl := Some []\<rparr>)
      else (Inl FeatureNotSupported, d))"
  using assms by (simp add: search_def create_reachable)

theorem search_recovery_witness:
  "reachable fresh_db
   \<and> get_neighbors (\<lambda>ob r. 0) docs_collection
       (search_statement class_attribute docs_collection [0, 0] 5 None) fresh_db = Inl UndefinedTable
   \<and> search (\<lambda>ob r. 0) class_attribute docs_collection (\<lambda>q. Some [0, 0]) [113] 5 None fresh_db =
       (Inr [], table_db [])"
proof -
  have r: "reachable fresh_db" by (simp add: fresh_db_def)
  have q: "(\<lambda>q::pystr. Some [0, 0::real]) [113] = Some [0, 0]" by simp
  have f: "get_neighbors (\<lambda>ob r. 0) docs_collection
       (search_statement class_attribute docs_collection [0, 0] 5 None) fresh_db = Inl UndefinedTable"
    by (simp add: get_neighbors_cases fresh_db_def)
  show ?thesis
    using r f
      search_recovery [where embedder = "\<lambda>q. Some [0, 0]" and query = "[113]", OF r q f]
    by (simp add: fresh_db_def table_db_def)
qed

text \<open>
  C4, as stated, fails: on a cold database (no table, and the vector extension
  cannot be created) the statement fails, the recovery \<open>create\<close> raises, and
  \<open>search\<close> raises to its caller instead of returning an empty list.
\<close>

theorem search_raises_on_cold_database:
  "get_neighbors (\<lambda>ob r. 0) docs_collection
       (search_statement class_attribute docs_collection [0, 0] 5 None) cold_db = Inl UndefinedTable
   \<and> search (\<lambda>ob r. 0) class_attribute docs_collection (\<lambda>q. Some [0, 0]) [113] 5 None cold_db =
       (Inl FeatureNotSupported, cold_db)"
  by (simp add: search_def get_neighbors_cases create_reachable cold_db_def)

section \<open>The write loop\<close>

lemma commit_fields [simp]:
  "pending (commit s) = pending s" "durable (commit s) = pending s"
  "commits (commit s) = Suc (commits s)"
  by (simp_all add: commit_def)

lemma session_execute_Inr:
  "session_execute dims stmt s = Inr s1 \<longleftrightarrow>
     (\<exists>d1. execute_write dims stmt (pending s) = Inr d1 \<and> s1 = s\<lparr>pending := d1\<rparr>)"
  by (auto simp add: session_execute_def split: sum.splits)

lemma session_execute_Inl:
  "session_execute dims stmt s = Inl e \<longleftrightarrow> execute_write dims stmt (pending s) = Inl e"
  by (auto simp add: session_execute_def split: sum.splits)

text \<open>The outcome of the loop is the outcome of writing the documents one by one.\<close>

lemma write_loop_outcome:
  "fst (write_loop mk cfg emb md5 B docs c s) =
     (case staged mk cfg emb md5 docs (pending s) of Inl e \<Rightarrow> Some e | Inr p \<Rightarrow> None)"
proof (induction docs arbitrary: c s)
  case Nil
  show ?case by simp
next
  case (Cons doc docs)
  show ?case
  proof (cases "document_values emb md5 doc")
    case (Inl e)
    then show ?thesis by simp
  next
    case (Inr v)
    show ?thesis
    proof (cases "execute_write (pg_dimensions cfg) (mk v) (pending s)")
      case (Inl e)
      with Inr show ?thesis by (simp add: session_execute_def)
    next
      case w: (Inr d1)
      with Inr show ?thesis
        by (simp add: session_execute_def Cons.IH)
    qed
  qed
qed

lemma write_loop_success:
  assumes "0 \<le> c" and "c = 0 \<Longrightarrow> durable s = pending s"
    and "write_loop mk cfg emb md5 B docs c s = (None, s')"
  shows "staged mk cfg emb md5 docs (pending s) = Inr (pending s') \<and> durable s' = pending s'"
  using assms
proof (induction docs arbitrary: c s)
  case Nil
  then show ?case by (auto split: if_splits)
next
  case (Cons doc docs)
  from Cons.prems(3) obtain v where v: "document_values emb md5 doc = Inr v"
    by (cases "document_values emb md5 doc") auto
  from Cons.prems(3) v obtain d1 where d1: "execute_write (pg_dimensions cfg) (mk v) (pending s) = Inr d1"
    by (cases "execute_write (pg_dimensions cfg) (mk v) (pending s)") (auto simp: session_execute_def)
  show ?case
  proof (cases "c + 1 \<ge> B")
    case True
    with Cons.prems(3) v d1
    have run: "write_loop mk cfg emb md5 B docs 0 (commit (s\<lparr>pending := d1\<rparr>)) = (None, s')"
      by (simp add: session_execute_def)
    have "staged mk cfg emb md5 docs (pending (commit (s\<lparr>pending := d1\<rparr>))) = Inr (pending s')
        \<and> durable s' = pending s'"
      by (rule Cons.IH [OF _ _ run]) simp_all
    with v d1 show ?thesis by simp
  next
    case False
    with Cons.prems(3) v d1
    have run: "write_loop mk cfg emb md5 B docs (c + 1) (s\<lparr>pending := d1\<rparr>) = (None, s')"
      by (simp add: session_execute_def)
    have "staged mk cfg emb md5 docs (pending (s\<lparr>pending := d1\<rparr>)) = Inr (pending s')
        \<and> durable s' = pending s'"
      using Cons.prems(1) by (intro Cons.IH [OF _ _ run]) simp_all
    with v d1 show ?thesis by simp
  qed
qed

lemma ceil_div_step: "0 < b \<Longrightarrow> (b + n + b - 1) div b = Suc ((n + b - 1) div b)" for b n :: nat
proof -
  assume b: "0 < b"
  then have "b + n + b - 1 = (n + b - 1) + b" by arith
  moreover have "((n + b - 1) + b) div b = Suc ((n + b - 1) div b)"
    using b by (simp only: div_add_self2)
  ultimately show ?thesis by (simp only:)
qed

lemma write_loop_commits:
  assumes "0 < b" and "k < b"
    and "write_loop mk cfg emb md5 (int b) docs (int k) s = (None, s')"
  shows "commits s' = commits s + (k + length docs + b - 1) div b"
  using assms
proof (induction docs arbitrary: k s)
  case Nil
  show ?case
  proof (cases "k = 0")
    case True
    with Nil show ?thesis by auto
  next
    case False
    with Nil have "(k + b - 1) div b = 1"
      by (intro div_nat_eqI) simp_all
    with False Nil show ?thesis by auto
  qed
next
  case (Cons doc docs)
  from Cons.prems(3) obtain v where v: "document_values emb md5 doc = Inr v"
    by (cases "document_values emb md5 doc") auto
  from Cons.prems(3) v obtain d1 where d1: "execute_write (pg_dimensions cfg) (mk v) (pending s) = Inr d1"
    by (cases "execute_write (pg_dimensions cfg) (mk v) (pending s)") (auto simp: session_execute_def)
  show ?case
  proof (cases "Suc k = b")
    case True
    with Cons.prems(3) v d1
    have run: "write_loop mk cfg emb md5 (int b) docs (int 0) (commit (s\<lparr>pending := d1\<rparr>)) = (None, s')"
      by (simp add: session_execute_def)
    have "commits s' = commits (commit (s\<lparr>pending := d1\<rparr>)) + (0 + length docs + b - 1) div b"
      using Cons.prems(1) by (intro Cons.IH [OF _ _ run]) simp_all
    moreover have "(k + length (doc # docs) + b - 1) div b = Suc ((length docs + b - 1) div b)"
    proof -
      have "k + length (doc # docs) + b - 1 = b + length docs + b - 1"
        using True by auto
      then show ?thesis
        using ceil_div_step [OF Cons.prems(1), of "length docs"] by (simp only:)
    qed
    ultimately show ?thesis by simp
  next
    case False
    with Cons.prems(2) have lt: "Suc k < b" by simp
    with Cons.prems(3) v d1
    have run: "write_loop mk cfg emb md5 (int b) docs (int (Suc k)) (s\<lparr>pending := d1\<rparr>) = (None, s')"
      by (simp add: session_execute_def add.commute)
    have "commits s' = commits (s\<lparr>pending := d1\<rparr>) + (Suc k + length docs + b - 1) div b"
      using Cons.prems(1) lt by (intro Cons.IH [OF _ _ run])
    then show ?thesis by simp
  qed
qed

lemma staged_Cons_Inr:
  "document_values emb md5 doc = Inr v \<Longrightarrow> execute_write (pg_dimensions cfg) (mk v) d = Inr d1 \<Longrightarrow>
     staged mk cfg emb md5 (doc # docs) d = staged mk cfg emb md5 docs d1"
  by simp

lemma write_loop_failure:
  assumes "0 < b" and "k < b"
    and "staged mk cfg emb md5 docs (pending s) = Inl e"
  shows "\<exists>s'. write_loop mk cfg emb md5 (int b) docs (int k) s = (Some e, s')
      \<and> commits s' = commits s + (k + written mk cfg emb md5 docs (pending s)) div b
      \<and> (if (k + written mk cfg emb md5 docs (pending s)) div b = 0 then durable s' = durable s
         else staged mk cfg emb md5
                (take (b * ((k + written mk cfg emb md5 docs (pending s)) div b) - k) docs)
                (pending s) = Inr (durable s'))"
  using assms
proof (induction docs arbitrary: k s)
  case Nil
  then show ?case by simp
next
  case (Cons doc docs)
  show ?case
  proof (cases "document_values emb md5 doc")
    case (Inl e')
    with Cons.prems show ?thesis by simp
  next
    case v: (Inr v)
    show ?thesis
    proof (cases "execute_write (pg_dimensions cfg) (mk v) (pending s)")
      case (Inl e')
      with v Cons.prems show ?thesis by (simp add: session_execute_def)
    next
      case d1: (Inr d1)
      from v d1 Cons.prems(3) have rest: "staged mk cfg emb md5 docs d1 = Inl e" by simp
      define j where "j = written mk cfg emb md5 docs d1"
      from v d1 have wr: "written mk cfg emb md5 (doc # docs) (pending s) = Suc j"
        by (simp add: j_def)
      show ?thesis
      proof (cases "Suc k = b")
        case True
        let ?s1 = "commit (s\<lparr>pending := d1\<rparr>)"
        have st: "staged mk cfg emb md5 docs (pending ?s1) = Inl e" using rest by simp
        have "\<exists>s'. write_loop mk cfg emb md5 (int b) docs (int 0) ?s1 = (Some e, s')
            \<and> commits s' = commits ?s1 + (0 + written mk cfg emb md5 docs (pending ?s1)) div b
            \<and> (if (0 + written mk cfg emb md5 docs (pending ?s1)) div b = 0
                then durable s' = durable ?s1
                else staged mk cfg emb md5
                       (take (b * ((0 + written mk cfg emb md5 docs (pending ?s1)) div b) - 0) docs)
                       (pending ?s1) = Inr (durable s'))"
          using Cons.prems(1) st by (intro Cons.IH) simp_all
        then obtain s' where run: "write_loop mk cfg emb md5 (int b) docs (int 0) ?s1 = (Some e, s')"
          and cm0: "commits s' = commits ?s1 + (0 + written mk cfg emb md5 docs (pending ?s1)) div b"
          and du0: "if (0 + written mk cfg emb md5 docs (pending ?s1)) div b = 0
                then durable s' = durable ?s1
                else staged mk cfg emb md5
                       (take (b * ((0 + written mk cfg emb md5 docs (pending ?s1)) div b) - 0) docs)
                       (pending ?s1) = Inr (durable s')"
          by blast
        from cm0 have cm: "commits s' = Suc (commits s) + j div b"
          by (simp add: j_def)
        from du0 have du: "if j div b = 0 then durable s' = d1
                   else staged mk cfg emb md5 (take (b * (j div b)) docs) d1 = Inr (durable s')"
          by (simp add: j_def split: if_splits)
        from True v d1 run
        have run': "write_loop mk cfg emb md5 (int b) (doc # docs) (int k) s = (Some e, s')"
          by (simp add: session_execute_def)
        have q: "(k + Suc j) div b = Suc (j div b)"
        proof -
          have "k + Suc j = j + b" using True by simp
          moreover have "(j + b) div b = Suc (j div b)"
            using Cons.prems(1) by (simp only: div_add_self2)
          ultimately show ?thesis by (simp only:)
        qed
        have tk: "b * Suc (j div b) - k = Suc (b * (j div b))"
          using True by simp
        have "staged mk cfg emb md5 (take (Suc (b * (j div b))) (doc # docs)) (pending s) =
            Inr (durable s')"
        proof (cases "j div b = 0")
          case True
          with du have "durable s' = d1" by simp
          with True v d1 show ?thesis by simp
        next
          case False
          with du v d1 show ?thesis by simp
        qed
        with q tk have fin: "if (k + Suc j) div b = 0 then durable s' = durable s
            else staged mk cfg emb md5 (take (b * ((k + Suc j) div b) - k) (doc # docs)) (pending s) =
              Inr (durable s')"
          by (simp only: nat.simps if_False)
        from cm q have cm': "commits s' = commits s + (k + Suc j) div b" by (simp only:)
        show ?thesis
          unfolding wr by (intro exI [of _ s'] conjI run' cm' fin)
      next
        case False
        with Cons.prems(2) have lt: "Suc k < b" by simp
        let ?s1 = "s\<lparr>pending := d1\<rparr>"
        have "staged mk cfg emb md5 docs (pending ?s1) = Inl e" using rest by simp
        from Cons.IH [OF Cons.prems(1) lt this]
        obtain s' where run: "write_loop mk cfg emb md5 (int b) docs (int (Suc k)) ?s1 = (Some e, s')"
          and cm0: "commits s' = commits ?s1 + (Suc k + written mk cfg emb md5 docs (pending ?s1)) div b"
          and du0: "if (Suc k + written mk cfg emb md5 docs (pending ?s1)) div b = 0
                then durable s' = durable ?s1
                else staged mk cfg emb md5
                       (take (b * ((Suc k + written mk cfg emb md5 docs (pending ?s1)) div b) - Suc k)
                          docs)
                       (pending ?s1) = Inr (durable s')"
          by blast
        from cm0 have cm: "commits s' = commits s + (Suc k + j) div b"
          by (simp add: j_def)
        from du0 have du: "if (Suc k + j) div b = 0 then durable s' = durable s
                   else staged mk cfg emb md5 (take (b * ((Suc k + j) div b) - Suc k) docs) d1 =
                     Inr (durable s')"
          by (simp add: j_def split: if_splits)
        from False lt v d1 run
        have run': "write_loop mk cfg emb md5 (int b) (doc # docs) (int k) s = (Some e, s')"
          by (simp add: session_execute_def add.commute)
        have "if (Suc k + j) div b = 0 then durable s' = durable s
              else staged mk cfg emb md5 (take (b * ((Suc k + j) div b) - k) (doc # docs)) (pending s) =
                Inr (durable s')"
        proof (cases "(Suc k + j) div b = 0")
          case True
          with du show ?thesis by simp
        next
          case nz: False
          define m where "m = b * ((Suc k + j) div b)"
          from nz have "b \<le> m" by (simp add: m_def)
          with lt have "m - k = Suc (m - Suc k)" by arith
          then have "b * ((Suc k + j) div b) - k = Suc (b * ((Suc k + j) div b) - Suc k)"
            by (simp only: m_def)
          with nz du v d1 show ?thesis by simp
        qed
        then have fin: "if (k + Suc j) div b = 0 then durable s' = durable s
            else staged mk cfg emb md5 (take (b * ((k + Suc j) div b) - k) (doc # docs)) (pending s) =
              Inr (durable s')"
          by (simp only: add_Suc_right add_Suc)
        from cm have cm': "commits s' = commits s + (k + Suc j) div b"
          by (simp only: add_Suc_right add_Suc)
        show ?thesis
          unfolding wr by (intro exI [of _ s'] conjI run' cm' fin)
      qed
    qed
  qed
qed

lemma write_loop_batches:
  assumes "1 \<le> B"
  shows "case write_loop mk cfg emb md5 B docs 0 (Session d) of
       (None, s) \<Rightarrow>
         commits s = (length docs + nat B - 1) div nat B
         \<and> staged mk cfg emb md5 docs d = Inr (durable s)
     | (Some e, s) \<Rightarrow>
         staged mk cfg emb md5 docs d = Inl e
         \<and> commits s = written mk cfg emb md5 docs d div nat B
         \<and> staged mk cfg emb md5
             (take (nat B * (written mk cfg emb md5 docs d div nat B)) docs) d = Inr (durable s)"
proof -
  define b where "b = nat B"
  with assms have b: "0 < b" and B: "B = int b" by simp_all
  have S: "pending (Session d) = d" "durable (Session d) = d" "commits (Session d) = 0"
    by (simp_all add: Session_def)
  define j where "j = written mk cfg emb md5 docs d"
  show ?thesis
  proof (cases "staged mk cfg emb md5 docs d")
    case (Inl e)
    then have st: "staged mk cfg emb md5 docs (pending (Session d)) = Inl e" by (simp add: S)
    from write_loop_failure [where k = 0, OF b b st]
    obtain s' where run: "write_loop mk cfg emb md5 (int b) docs (int 0) (Session d) = (Some e, s')"
      and cm0: "commits s' = commits (Session d) +
          (0 + written mk cfg emb md5 docs (pending (Session d))) div b"
      and du0: "if (0 + written mk cfg emb md5 docs (pending (Session d))) div b = 0
         then durable s' = durable (Session d)
         else staged mk cfg emb md5
                (take (b * ((0 + written mk cfg emb md5 docs (pending (Session d))) div b) - 0) docs)
                (pending (Session d)) = Inr (durable s')"
      by blast
    from cm0 have cm: "commits s' = j div b" by (simp add: S j_def)
    from du0 have du: "staged mk cfg emb md5 (take (b * (j div b)) docs) d = Inr (durable s')"
      by (simp add: S j_def split: if_splits)
    from run Inl cm du show ?thesis
      by (simp add: B j_def)
  next
    case (Inr p)
    have "fst (write_loop mk cfg emb md5 B docs 0 (Session d)) = None"
      by (simp add: write_loop_outcome S Inr)
    then obtain s' where run: "write_loop mk cfg emb md5 B docs 0 (Session d) = (None, s')"
      by (cases "write_loop mk cfg emb md5 B docs 0 (Session d)") simp
    have "staged mk cfg emb md5 docs (pending (Session d)) = Inr (pending s')
        \<and> durable s' = pending s'"
      by (rule write_loop_success [OF _ _ run]) (simp_all add: S)
    then have st: "staged mk cfg emb md5 docs d = Inr (durable s')" by (simp add: S)
    from run have "write_loop mk cfg emb md5 (int b) docs (int 0) (Session d) = (None, s')"
      by (simp add: B)
    from write_loop_commits [OF b b this]
    have "commits s' = (length docs + b - 1) div b" by (simp add: S)
    with run st show ?thesis by (simp add: B)
  qed
qed

section \<open>What a write stores\<close>

lemma document_values_Inr:
  assumes "document_values emb md5 doc = Inr v"
  shows "\<exists>c. doc_content doc = Some c
     \<and> content_digest md5 (replace_null c) = Inr (v_content_hash v)
     \<and> v_id v = (case doc_id doc of
                   None \<Rightarrow> v_content_hash v
                 | Some i \<Rightarrow> if i = [] then v_content_hash v else i)
     \<and> v_name v = doc_name doc \<and> v_meta_data v = doc_meta_data doc
     \<and> v_content v = replace_null c \<and> v_embedding v = emb c \<and> v_usage v = doc_usage doc"
proof -
  from assms obtain c where c: "doc_content doc = Some c"
    by (cases "doc_content doc") (simp_all add: document_values_def embed_def)
  from assms c obtain e where e: "emb c = Some e"
    by (cases "emb c") (simp_all add: document_values_def embed_def)
  from assms c e obtain h where h: "content_digest md5 (replace_null c) = Inr h"
    by (cases "content_digest md5 (replace_null c)") (simp_all add: document_values_def embed_def)
  from assms c e h show ?thesis
    by (auto simp add: document_values_def embed_def split: option.splits)
qed

lemma staged_append:
  "staged mk cfg emb md5 (xs @ ys) d =
     (case staged mk cfg emb md5 xs d of
        Inl e \<Rightarrow> Inl e
      | Inr d1 \<Rightarrow> staged mk cfg emb md5 ys d1)"
  by (induction xs arbitrary: d) (simp_all split: sum.splits)

lemma staged_single:
  "staged mk cfg emb md5 [doc] d =
     (case document_values emb md5 doc of
        Inl e \<Rightarrow> Inl e
      | Inr v \<Rightarrow> execute_write (pg_dimensions cfg) (mk v) d)"
  by (simp split: sum.splits)


lemma foldr_copy_columns:
  "foldr (\<lambda>c. copy_column c (proposed_row t v))
     [Col_name, Col_meta_data, Col_content, Col_embedding, Col_usage, Col_content_hash] r =
   replaced v r"
  by (simp add: replaced_def proposed_row_def)

lemma execute_upsert:
  assumes "execute_write dims (upsert_statement v) d = Inr d1"
  shows "\<exists>rows. tbl d = Some rows
     \<and> tbl d1 = Some (if id_present (v_id v) rows
                      then map (\<lambda>r. if r_id r = v_id v then replaced v r else r) rows
                      else rows @ [proposed_row (clock d) v])"
  using assms
  by (auto simp add: execute_write_def upsert_statement_def foldr_copy_columns
      simp del: foldr.simps split: if_splits option.splits)








lemma values_a:
  "document_values unit_embedder toy_md5 doc_a =
     Inr \<lparr>v_id = [97, 239, 191, 189], v_name = Some [97], v_meta_data = None,
          v_content = [97, 65533], v_embedding = Some [0, 0], v_usage = None,
          v_content_hash = [97, 239, 191, 189]\<rparr>"
  by (simp add: document_values_def embed_def unit_embedder_def toy_md5_def doc_a_def
      replace_null_def content_digest_def utf8_def Let_def)

lemma values_b:
  "document_values unit_embedder toy_md5 doc_b =
     Inr \<lparr>v_id = [98], v_name = Some [98], v_meta_data = None,
          v_content = [98], v_embedding = Some [0, 0], v_usage = None,
          v_content_hash = [98]\<rparr>"
  by (simp add: document_values_def embed_def unit_embedder_def toy_md5_def doc_b_def
      replace_null_def content_digest_def utf8_def Let_def)

lemma values_c:
  "document_values unit_embedder toy_md5 doc_c =
     Inr \<lparr>v_id = [98], v_name = Some [99], v_meta_data = Some (JObj []),
          v_content = [99], v_embedding = Some [0, 0], v_usage = Some (JNum 3),
          v_content_hash = [99]\<rparr>"
  by (simp add: document_values_def embed_def unit_embedder_def toy_md5_def doc_c_def
      replace_null_def content_digest_def utf8_def Let_def)


section \<open>Batches, replacement, identity\<close>

text \<open>
  C5. \<open>insert\<close> and \<open>upsert\<close> write the documents in input order and commit after
  every \<open>batch_size\<close> of them and once more for a remainder. With a batch size of at
  least 1: a run that ends normally has made \<open>ceil(N / batch_size)\<close> commits and
  every document is durable; a run that fails after \<open>j\<close> documents were written has
  made \<open>k = j div batch_size\<close> commits, and what is durable is exactly the first
  \<open>k\<close> batches, the first \<open>k * batch_size\<close> documents written in order.
\<close>

theorem batch_commits:
  assumes "1 \<le> batch_size"
  shows "(case insert_docs cfg emb md5 docs batch_size d of
       (None, s) \<Rightarrow>
         commits s = (length docs + nat batch_size - 1) div nat batch_size
         \<and> staged insert_statement cfg emb md5 docs d = Inr (durable s)
     | (Some e, s) \<Rightarrow>
         staged insert_statement cfg emb md5 docs d = Inl e
         \<and> commits s = written insert_statement cfg emb md5 docs d div nat batch_size
         \<and> staged insert_statement cfg emb md5
             (take (nat batch_size * (written insert_statement cfg emb md5 docs d div nat batch_size))
                docs) d = Inr (durable s))
   \<and> (case upsert cfg emb md5 docs batch_size d of
       (None, s) \<Rightarrow>
         commits s = (length docs + nat batch_size - 1) div nat batch_size
         \<and> staged upsert_statement cfg emb md5 docs d = Inr (durable s)
     | (Some e, s) \<Rightarrow>
         staged upsert_statement cfg emb md5 docs d = Inl e
         \<and> commits s = written upsert_statement cfg emb md5 docs d div nat batch_size
         \<and> staged upsert_statement cfg emb md5
             (take (nat batch_size * (written upsert_statement cfg emb md5 docs d div nat batch_size))
                docs) d = Inr (durable s))"
  unfolding insert_docs_def upsert_def
  by (intro conjI write_loop_batches [OF assms])

theorem batch_commits_witness:
  "(1::int) \<le> 2
   \<and> insert_docs docs_collection unit_embedder toy_md5 [doc_a, doc_b, doc_a] 2 (table_db []) =
       (Some UniqueViolation,
        \<lparr>durable = table_db [row_a, row_b], pending = table_db [row_a, row_b], commits = 1\<rparr>)
   \<and> written insert_statement docs_collection unit_embedder toy_md5 [doc_a, doc_b, doc_a]
         (table_db []) div 2 = 1
   \<and> staged insert_statement docs_collection unit_embedder toy_md5 (take 2 [doc_a, doc_b, doc_a])
         (table_db []) = Inr (table_db [row_a, row_b])"
proof -
  have h: "insert_docs docs_collection unit_embedder toy_md5 [doc_a, doc_b, doc_a] 2 (table_db []) =
       (Some UniqueViolation,
        \<lparr>durable = table_db [row_a, row_b], pending = table_db [row_a, row_b], commits = 1\<rparr>)"
    by (simp add: insert_docs_def Session_def values_a values_b session_execute_def
        execute_write_def insert_statement_def docs_collection_def table_db_def dimension_ok_def
        id_present_def proposed_row_def commit_def row_a_def row_b_def)
  have one: "(1::int) \<le> 2" by simp
  from batch_commits [OF one, where cfg = docs_collection and emb = unit_embedder
      and ?md5.0 = toy_md5 and docs = "[doc_a, doc_b, doc_a]" and d = "table_db []"]
  have "1 = written insert_statement docs_collection unit_embedder toy_md5 [doc_a, doc_b, doc_a]
         (table_db []) div 2
     \<and> staged insert_statement docs_collection unit_embedder toy_md5
         (take (2 * (written insert_statement docs_collection unit_embedder toy_md5
            [doc_a, doc_b, doc_a] (table_db []) div 2)) [doc_a, doc_b, doc_a])
         (table_db []) = Inr (table_db [row_a, row_b])"
    unfolding h by simp
  then have "written insert_statement docs_collection unit_embedder toy_md5 [doc_a, doc_b, doc_a]
         (table_db []) div 2 = 1
     \<and> staged insert_statement docs_collection unit_embedder toy_md5 (take 2 [doc_a, doc_b, doc_a])
         (table_db []) = Inr (table_db [row_a, row_b])"
    by (metis mult.right_neutral)
  with h one show ?thesis by blast
qed

text \<open>
  C2. Every document of an \<open>upsert\<close> whose identity is already a row id when its
  statement runs replaces, in that row, the name, the metadata, the content, the
  embedding, the usage and the fingerprint by its own values, whatever the old and
  new fingerprints are; the id and the timestamps of the row and every other row
  stay. A document whose identity is new is appended.
\<close>

theorem upsert_replaces_row:
  assumes "upsert cfg emb md5 (pre @ doc # post) batch_size d = (None, s)"
  shows "\<exists>v c p p' rows.
      document_values emb md5 doc = Inr v
    \<and> doc_content doc = Some c
    \<and> v_name v = doc_name doc \<and> v_meta_data v = doc_meta_data doc
    \<and> v_content v = replace_null c \<and> v_embedding v = emb c \<and> v_usage v = doc_usage doc
    \<and> content_digest md5 (replace_null c) = Inr (v_content_hash v)
    \<and> staged upsert_statement cfg emb md5 pre d = Inr p
    \<and> staged upsert_statement cfg emb md5 (pre @ [doc]) d = Inr p'
    \<and> tbl p = Some rows
    \<and> tbl p' = Some (if id_present (v_id v) rows
                     then map (\<lambda>r. if r_id r = v_id v then replaced v r else r) rows
                     else rows @ [proposed_row (clock p) v])
    \<and> staged upsert_statement cfg emb md5 post p' = Inr (durable s)"
proof -
  have S: "pending (Session d) = d" "durable (Session d) = d" by (simp_all add: Session_def)
  from assms have run: "write_loop upsert_statement cfg emb md5 batch_size (pre @ doc # post) 0
      (Session d) = (None, s)"
    by (simp add: upsert_def)
  have "staged upsert_statement cfg emb md5 (pre @ doc # post) (pending (Session d)) =
      Inr (pending s) \<and> durable s = pending s"
    by (rule write_loop_success [OF _ _ run]) (simp_all add: S)
  then have all: "staged upsert_statement cfg emb md5 (pre @ doc # post) d = Inr (durable s)"
    by (simp add: S)
  then obtain p where p: "staged upsert_statement cfg emb md5 pre d = Inr p"
    and rest: "staged upsert_statement cfg emb md5 (doc # post) p = Inr (durable s)"
    by (auto simp add: staged_append split: sum.splits)
  from rest obtain v where v: "document_values emb md5 doc = Inr v"
    by (cases "document_values emb md5 doc") auto
  from rest v obtain p' where
    p': "execute_write (pg_dimensions cfg) (upsert_statement v) p = Inr p'"
    by (cases "execute_write (pg_dimensions cfg) (upsert_statement v) p") auto
  from rest v p' have post: "staged upsert_statement cfg emb md5 post p' = Inr (durable s)"
    by simp
  from p v p' have one: "staged upsert_statement cfg emb md5 (pre @ [doc]) d = Inr p'"
    by (simp add: staged_append)
  from execute_upsert [OF p'] obtain rows where rows: "tbl p = Some rows"
    "tbl p' = Some (if id_present (v_id v) rows
                     then map (\<lambda>r. if r_id r = v_id v then replaced v r else r) rows
                     else rows @ [proposed_row (clock p) v])"
    by blast
  from document_values_Inr [OF v] obtain c where c: "doc_content doc = Some c"
    "content_digest md5 (replace_null c) = Inr (v_content_hash v)"
    "v_name v = doc_name doc" "v_meta_data v = doc_meta_data doc"
    "v_content v = replace_null c" "v_embedding v = emb c" "v_usage v = doc_usage doc"
    by blast
  from v c p one rows post show ?thesis by blast
qed

theorem upsert_replaces_row_witness:
  "upsert docs_collection unit_embedder toy_md5 ([] @ doc_c # []) 20 (later (table_db [row_a, row_b])) =
     (None, \<lparr>durable = later (table_db [row_a, row_c]),
             pending = later (table_db [row_a, row_c]), commits = 1\<rparr>)
   \<and> id_present [98] [row_a, row_b]
   \<and> map (\<lambda>r. if r_id r = [98]
         then replaced \<lparr>v_id = [98], v_name = Some [99], v_meta_data = Some (JObj []),
            v_content = [99], v_embedding = Some [0, 0], v_usage = Some (JNum 3),
            v_content_hash = [99]\<rparr> r
         else r) [row_a, row_b] = [row_a, row_c]"
proof -
  have h: "upsert docs_collection unit_embedder toy_md5 ([] @ doc_c # []) 20
      (later (table_db [row_a, row_b])) =
     (None, \<lparr>durable = later (table_db [row_a, row_c]),
             pending = later (table_db [row_a, row_c]), commits = 1\<rparr>)"
    by (simp add: upsert_def Session_def values_c session_execute_def
        execute_write_def upsert_statement_def docs_collection_def table_db_def dimension_ok_def
        id_present_def proposed_row_def commit_def row_a_def row_b_def row_c_def later_def)
  have "\<exists>rows. tbl (later (table_db [row_a, row_b])) = Some rows"
    using upsert_replaces_row [OF h] by auto
  with h show ?thesis
    by (simp add: id_present_def replaced_def row_a_def row_b_def row_c_def)
qed



end
